theory Spec2Isabelle
  imports Main "HOL-Library.AList" "HOL-Library.Word"
begin

section \<open>go-cliapp: command matching and argument binding\<close>

text \<open>
  A shallow embedding of \<^verbatim>\<open>cliapp.go\<close>. Go strings are byte sequences and are modelled
  as \<open>string\<close>; where the code walks a string by runes, the bytes are decoded as UTF-8 the
  way Go does. A Go \<^verbatim>\<open>int\<close> that a loop counts with is an \<open>int\<close> that wraps at the ends of
  its range. Go maps are association lists with distinct keys, written with
  \<open>AList.update\<close> and read with \<open>map_of\<close>; a \<^verbatim>\<open>range\<close> over a map visits the list in
  order, which is one of the orders the Go runtime may choose.
\<close>

subsection \<open>Types and values seen through reflection\<close>

text \<open>
  A type is what \<^verbatim>\<open>reflect\<close> tells of it: its kind, for a struct its name and fields (name,
  type and tag, the tag as the list of its key-value pairs), for a kind that is not handled
  its name. A primitive type is the predeclared type of its kind, and the fields of a
  struct are exported, so that every field can be set.
\<close>

datatype ty =
    TString | TInt | TInt64 | TFloat64 | TBool
  | TPtr ty
  | TStruct string "field list"
  | TOther string
and field = Field (fname: string) (ftype: ty) (ftag: "(string \<times> string) list")

text \<open>A \<^verbatim>\<open>float64\<close> is carried as its 64 bits; its parser is a parameter of the model.\<close>

datatype val =
    VString string | VInt int | VInt64 int | VFloat64 "64 word" | VBool bool
  | VPtr "val option"
  | VStruct "val list"
  | VZero ty

datatype numerr = ErrSyntax | ErrRange

datatype error =
    NumError string string numerr
  | UnsupportedType string
  | UnknownCommand string
  | ParseStructArgFailed nat string error
  | NotEnoughArguments string nat nat
  | ParseArgFailed nat string error
  | UnknownOption string
  | WrongNumberOfArguments string nat nat
  | NotStruct
  | NotEnoughPositional int
  | ParsePositionalFailed int error
  | ParseOptionFailed string error
  | MissingValue string
  | HandlerError string

text \<open>
  The environment: \<^verbatim>\<open>os.Args\<close>, \<^verbatim>\<open>strconv.IntSize\<close>, and the library functions that are
  not modelled: \<^verbatim>\<open>strconv.ParseFloat(s, 64)\<close>, \<^verbatim>\<open>strconv.Quote\<close>, and the tables of
  \<^verbatim>\<open>unicode.IsUpper\<close> and \<^verbatim>\<open>unicode.ToLower\<close> for the runes beyond ASCII.
\<close>

record env =
  osArgs :: "string list"
  intSize :: nat
  ParseFloat :: "string \<Rightarrow> numerr + 64 word"
  Quote :: "string \<Rightarrow> string"
  IsUpper :: "int \<Rightarrow> bool"
  ToLower :: "int \<Rightarrow> int"

text \<open>The ends of the range of \<^verbatim>\<open>int\<close>, and \<^verbatim>\<open>p++\<close> on an \<^verbatim>\<open>int\<close>, which wraps.\<close>

definition maxInt :: "env \<Rightarrow> int" where
  "maxInt env = 2 ^ (intSize env - 1) - 1"

definition minInt :: "env \<Rightarrow> int" where
  "minInt env = - (2 ^ (intSize env - 1))"

definition incr :: "env \<Rightarrow> int \<Rightarrow> int" where
  "incr env p = (if p = maxInt env then minInt env else p + 1)"

subsection \<open>Library functions: strings, strconv\<close>

definition HasPrefix :: "string \<Rightarrow> string \<Rightarrow> bool" where
  "HasPrefix s p = (take (length p) s = p)"

fun IndexByte :: "string \<Rightarrow> char \<Rightarrow> nat option" where
  "IndexByte [] c = None"
| "IndexByte (x # xs) c =
     (if x = c then Some 0 else map_option Suc (IndexByte xs c))"

text \<open>
  Runes. \<open>decodeRune\<close> is the step of \<^verbatim>\<open>for i, r := range s\<close> and of
  \<^verbatim>\<open>utf8.DecodeRuneInString\<close> on a string that is not empty: the rune at the head and the
  number of bytes it takes after the first; a byte that begins no valid encoding is the
  rune \<^verbatim>\<open>utf8.RuneError\<close> of width 1. \<open>encodeRune\<close> is \<^verbatim>\<open>utf8.AppendRune\<close>, the bytes that
  \<^verbatim>\<open>WriteRune\<close> writes.
\<close>

definition RuneError :: int where
  "RuneError = 65533"

definition inRange :: "int \<Rightarrow> int \<Rightarrow> char \<Rightarrow> bool" where
  "inRange lo hi c = (lo \<le> (of_char c :: int) \<and> (of_char c :: int) \<le> hi)"

fun decodeRune :: "string \<Rightarrow> int \<times> nat" where
  "decodeRune [] = (RuneError, 0)"
| "decodeRune (c # cs) =
     (let b0 = (of_char c :: int) in
      if b0 < 128 then (b0, 0)
      else if 194 \<le> b0 \<and> b0 \<le> 223 then
        (case cs of
           c1 # rest \<Rightarrow>
             if inRange 128 191 c1
             then ((b0 - 192) * 64 + (of_char c1 - 128), 1)
             else (RuneError, 0)
         | _ \<Rightarrow> (RuneError, 0))
      else if 224 \<le> b0 \<and> b0 \<le> 239 then
        (case cs of
           c1 # c2 # rest \<Rightarrow>
             if inRange (if b0 = 224 then 160 else 128) (if b0 = 237 then 159 else 191) c1
                \<and> inRange 128 191 c2
             then ((b0 - 224) * 4096 + (of_char c1 - 128) * 64 + (of_char c2 - 128), 2)
             else (RuneError, 0)
         | _ \<Rightarrow> (RuneError, 0))
      else if 240 \<le> b0 \<and> b0 \<le> 244 then
        (case cs of
           c1 # c2 # c3 # rest \<Rightarrow>
             if inRange (if b0 = 240 then 144 else 128) (if b0 = 244 then 143 else 191) c1
                \<and> inRange 128 191 c2 \<and> inRange 128 191 c3
             then ((b0 - 240) * 262144 + (of_char c1 - 128) * 4096
                     + (of_char c2 - 128) * 64 + (of_char c3 - 128), 3)
             else (RuneError, 0)
         | _ \<Rightarrow> (RuneError, 0))
      else (RuneError, 0))"

definition encodeRune :: "int \<Rightarrow> string" where
  "encodeRune r0 =
     (let r = (if r0 < 0 \<or> r0 > 1114111 \<or> (55296 \<le> r0 \<and> r0 \<le> 57343)
               then RuneError else r0)
      in if r < 128 then [char_of r]
         else if r < 2048 then [char_of (192 + r div 64), char_of (128 + r mod 64)]
         else if r < 65536
         then [char_of (224 + r div 4096), char_of (128 + (r div 64) mod 64),
               char_of (128 + r mod 64)]
         else [char_of (240 + r div 262144), char_of (128 + (r div 4096) mod 64),
               char_of (128 + (r div 64) mod 64), char_of (128 + r mod 64)])"

text \<open>\<^verbatim>\<open>utf8.RuneCountInString\<close>, by which \<^verbatim>\<open>fmt\<close> measures a width.\<close>

fun runeCount :: "string \<Rightarrow> nat" where
  "runeCount [] = 0"
| "runeCount (c # cs) = Suc (runeCount (drop (snd (decodeRune (c # cs))) cs))"

text \<open>\<^verbatim>\<open>unicode.IsSpace\<close>: the white space of Latin-1 and of the Unicode property.\<close>

definition isSpace :: "int \<Rightarrow> bool" where
  "isSpace r =
     (r \<in> {9, 10, 11, 12, 13, 32, 133, 160, 5760, 8232, 8233, 8239, 8287, 12288}
      \<or> (8192 \<le> r \<and> r \<le> 8202))"

text \<open>
  \<^verbatim>\<open>strings.Fields\<close>: the string is walked rune by rune; the fields are the pieces of the
  string itself between the white space. \<open>cur\<close> is the field being read.
\<close>

fun FieldsFrom :: "string \<Rightarrow> string \<Rightarrow> string list" where
  "FieldsFrom [] cur = (if cur = [] then [] else [cur])"
| "FieldsFrom (c # cs) cur =
     (let (r, extra) = decodeRune (c # cs) in
      if isSpace r
      then (if cur = [] then FieldsFrom (drop extra cs) []
            else cur # FieldsFrom (drop extra cs) [])
      else FieldsFrom (drop extra cs) (cur @ c # take extra cs))"

definition Fields :: "string \<Rightarrow> string list" where
  "Fields s = FieldsFrom s []"

text \<open>
  \<^verbatim>\<open>unicode.IsUpper\<close> and \<^verbatim>\<open>unicode.ToLower\<close>: on ASCII the letters \<^verbatim>\<open>A\<close> to \<^verbatim>\<open>Z\<close>, beyond
  it the tables of the environment.
\<close>

definition isUpper :: "env \<Rightarrow> int \<Rightarrow> bool" where
  "isUpper env r = (if r < 128 then 65 \<le> r \<and> r \<le> 90 else IsUpper env r)"

definition toLower :: "env \<Rightarrow> int \<Rightarrow> int" where
  "toLower env r = (if r < 128 then (if 65 \<le> r \<and> r \<le> 90 then r + 32 else r) else ToLower env r)"

definition isDigit :: "char \<Rightarrow> bool" where
  "isDigit c = (48 \<le> (of_char c :: nat) \<and> (of_char c :: nat) \<le> 57)"

definition digitVal :: "char \<Rightarrow> int" where
  "digitVal c = (of_char c :: int) - 48"

definition digitChar :: "nat \<Rightarrow> char" where
  "digitChar d = char_of (48 + d)"

text \<open>\<^verbatim>\<open>strconv.ParseUint(s, 10, bitSize)\<close> on a non-empty string: the digit loop.\<close>

fun parseUintLoop :: "int \<Rightarrow> string \<Rightarrow> int \<Rightarrow> numerr + int" where
  "parseUintLoop maxVal [] n = Inr n"
| "parseUintLoop maxVal (c # cs) n =
     (if \<not> isDigit c then Inl ErrSyntax
      else if n * 10 + digitVal c > maxVal then Inl ErrRange
      else parseUintLoop maxVal cs (n * 10 + digitVal c))"

definition parseIntBits :: "string \<Rightarrow> nat \<Rightarrow> numerr + int" where
  "parseIntBits s bitSize =
     (if s = [] then Inl ErrSyntax
      else
        let neg = (hd s = CHR ''-'');
            s1 = (if hd s = CHR ''+'' \<or> hd s = CHR ''-'' then tl s else s)
        in if s1 = [] then Inl ErrSyntax
           else (case parseUintLoop (2 ^ bitSize - 1) s1 0 of
                   Inl ErrSyntax \<Rightarrow> Inl ErrSyntax
                 | Inl ErrRange \<Rightarrow> Inl ErrRange
                 | Inr un \<Rightarrow>
                     if \<not> neg \<and> un \<ge> 2 ^ (bitSize - 1) then Inl ErrRange
                     else if neg \<and> un > 2 ^ (bitSize - 1) then Inl ErrRange
                     else Inr (if neg then - un else un)))"

definition ParseInt :: "string \<Rightarrow> nat \<Rightarrow> error + int" where
  "ParseInt s bitSize =
     (case parseIntBits s bitSize of
        Inl e \<Rightarrow> Inl (NumError ''ParseInt'' s e)
      | Inr v \<Rightarrow> Inr v)"

definition Atoi :: "env \<Rightarrow> string \<Rightarrow> error + int" where
  "Atoi env s =
     (case parseIntBits s (intSize env) of
        Inl e \<Rightarrow> Inl (NumError ''Atoi'' s e)
      | Inr v \<Rightarrow> Inr v)"

definition ParseBool :: "string \<Rightarrow> error + bool" where
  "ParseBool str =
     (if str \<in> {''1'', ''t'', ''T'', ''true'', ''TRUE'', ''True''} then Inr True
      else if str \<in> {''0'', ''f'', ''F'', ''false'', ''FALSE'', ''False''} then Inr False
      else Inl (NumError ''ParseBool'' str ErrSyntax))"

function natStr :: "nat \<Rightarrow> string" where
  "natStr n = (if n < 10 then [digitChar n] else natStr (n div 10) @ [digitChar (n mod 10)])"
  by pat_completeness auto
termination
  by (relation "measure id") auto

declare natStr.simps [simp del]

definition Itoa :: "int \<Rightarrow> string" where
  "Itoa i = (if i < 0 then CHR ''-'' # natStr (nat (- i)) else natStr (nat i))"

definition FormatBool :: "bool \<Rightarrow> string" where
  "FormatBool b = (if b then ''true'' else ''false'')"

subsection \<open>Type coercion\<close>

fun tyString :: "ty \<Rightarrow> string" where
  "tyString TString = ''string''"
| "tyString TInt = ''int''"
| "tyString TInt64 = ''int64''"
| "tyString TFloat64 = ''float64''"
| "tyString TBool = ''bool''"
| "tyString (TPtr t) = CHR ''*'' # tyString t"
| "tyString (TStruct n fs) = n"
| "tyString (TOther n) = n"

fun parseValue :: "env \<Rightarrow> string \<Rightarrow> ty \<Rightarrow> error + val" where
  "parseValue env s TString = Inr (VString s)"
| "parseValue env s TInt =
     (case Atoi env s of Inl e \<Rightarrow> Inl e | Inr v \<Rightarrow> Inr (VInt v))"
| "parseValue env s TInt64 =
     (case ParseInt s 64 of Inl e \<Rightarrow> Inl e | Inr v \<Rightarrow> Inr (VInt64 v))"
| "parseValue env s TFloat64 =
     (case ParseFloat env s of
        Inl e \<Rightarrow> Inl (NumError ''ParseFloat'' s e)
      | Inr v \<Rightarrow> Inr (VFloat64 v))"
| "parseValue env s TBool =
     (case ParseBool s of Inl e \<Rightarrow> Inl e | Inr v \<Rightarrow> Inr (VBool v))"
| "parseValue env s t = Inl (UnsupportedType (tyString t))"

text \<open>
  \<^verbatim>\<open>parseAndSetField(field, value)\<close>: \<open>field\<close> is field \<open>fi\<close> of the struct value \<open>sv\<close>,
  whose field types are \<open>tys\<close>; the updated struct value is returned.
\<close>

definition parseAndSetField :: "env \<Rightarrow> ty list \<Rightarrow> val list \<Rightarrow> nat \<Rightarrow> string \<Rightarrow> error + val list" where
  "parseAndSetField env tys sv fi value =
     (case tys ! fi of
        TPtr elemType \<Rightarrow>
          (case parseValue env value elemType of
             Inl e \<Rightarrow> Inl e
           | Inr parsedValue \<Rightarrow> Inr (sv[fi := VPtr (Some parsedValue)]))
      | fieldType \<Rightarrow>
          (case parseValue env value fieldType of
             Inl e \<Rightarrow> Inl e
           | Inr parsedValue \<Rightarrow> Inr (sv[fi := parsedValue])))"

definition setBoolField :: "ty list \<Rightarrow> val list \<Rightarrow> nat \<Rightarrow> val list" where
  "setBoolField tys sv fi =
     (if tys ! fi = TBool then sv[fi := VBool True]
      else if tys ! fi = TPtr TBool then sv[fi := VPtr (Some (VBool True))]
      else sv)"

definition isBoolField :: "ty \<Rightarrow> bool" where
  "isBoolField fieldType = (fieldType = TBool \<or> fieldType = TPtr TBool)"

subsection \<open>Field metadata\<close>

text \<open>
  The loop \<^verbatim>\<open>for i, r := range s\<close> of \<^verbatim>\<open>toWords\<close> and \<^verbatim>\<open>toKebab\<close>, which differ in the
  separator only; \<open>i\<close> is the byte index of the rune.
\<close>

fun caseWords :: "env \<Rightarrow> char \<Rightarrow> nat \<Rightarrow> string \<Rightarrow> string" where
  "caseWords env sep i [] = []"
| "caseWords env sep i (c # cs) =
     (let (r, extra) = decodeRune (c # cs) in
      (if isUpper env r
       then (if i > 0 then [sep] else []) @ encodeRune (toLower env r)
       else encodeRune r)
      @ caseWords env sep (i + 1 + extra) (drop extra cs))"

definition toWords :: "env \<Rightarrow> string \<Rightarrow> string" where
  "toWords env s = caseWords env (CHR '' '') 0 s"

definition toKebab :: "env \<Rightarrow> string \<Rightarrow> string" where
  "toKebab env s = caseWords env (CHR ''-'') 0 s"

definition Lookup :: "(string \<times> string) list \<Rightarrow> string \<Rightarrow> string option" where
  "Lookup tag key = map_of tag key"

type_synonym fieldMaps = "(int \<times> nat) list \<times> (string \<times> nat) list \<times> (string \<times> nat) list"

fun buildFieldMapsFrom :: "env \<Rightarrow> field list \<Rightarrow> nat \<Rightarrow> fieldMaps \<Rightarrow> fieldMaps" where
  "buildFieldMapsFrom env [] i maps = maps"
| "buildFieldMapsFrom env (f # fs) i (posFields, longMap, shortMap) =
     (let tag = ftag f;
          (posFields1, longMap1, shortMap1) =
            (case Lookup tag ''arg'' of
               Some v \<Rightarrow>
                 (case Atoi env v of
                    Inr n \<Rightarrow> (AList.update n i posFields, longMap, shortMap)
                  | Inl err \<Rightarrow> (posFields, longMap, shortMap))
             | None \<Rightarrow>
                 (let longName = (case Lookup tag ''long'' of
                                    Some v \<Rightarrow> v
                                  | None \<Rightarrow> ''--'' @ toKebab env (fname f))
                  in (posFields,
                      AList.update longName i longMap,
                      (case Lookup tag ''short'' of
                         Some v \<Rightarrow> AList.update v i shortMap
                       | None \<Rightarrow> shortMap))));
          longMap2 = (case Lookup tag ''long'' of
                        Some v \<Rightarrow> AList.update v i longMap1
                      | None \<Rightarrow> longMap1);
          shortMap2 = (case Lookup tag ''short'' of
                         Some v \<Rightarrow> AList.update v i shortMap1
                       | None \<Rightarrow> shortMap1)
      in buildFieldMapsFrom env fs (i + 1) (posFields1, longMap2, shortMap2))"

definition buildFieldMaps :: "env \<Rightarrow> field list \<Rightarrow> fieldMaps" where
  "buildFieldMaps env fs = buildFieldMapsFrom env fs 0 ([], [], [])"

subsection \<open>The struct binder\<close>

text \<open>\<^verbatim>\<open>reflect.New(t).Elem()\<close>: the zero value of a type.\<close>

fun zero :: "ty \<Rightarrow> val" and zeroFields :: "field list \<Rightarrow> val list" where
  "zero TString = VString []"
| "zero TInt = VInt 0"
| "zero TInt64 = VInt64 0"
| "zero TFloat64 = VFloat64 0"
| "zero TBool = VBool False"
| "zero (TPtr t) = VPtr None"
| "zero (TStruct n fs) = VStruct (zeroFields fs)"
| "zero (TOther n) = VZero (TOther n)"
| "zeroFields [] = []"
| "zeroFields (Field n t tg # fs) = zero t # zeroFields fs"

text \<open>The loop \<^verbatim>\<open>for k := range posFields\<close> that finds the greatest position.\<close>

fun maxPosition :: "(int \<times> nat) list \<Rightarrow> int \<Rightarrow> int" where
  "maxPosition [] m = m"
| "maxPosition ((k, fi) # rest) m = maxPosition rest (if k > m then k else m)"

text \<open>
  The body of the loop \<^verbatim>\<open>for p := 0; p <= max; p++\<close>, run over the positions that \<open>p\<close>
  takes. The result is the struct value and \<open>consumed\<close>.
\<close>

fun positionalLoop ::
  "env \<Rightarrow> ty list \<Rightarrow> (int \<times> nat) list \<Rightarrow> string list \<Rightarrow> int list \<Rightarrow> val list \<Rightarrow> nat
     \<Rightarrow> error + (val list \<times> nat)" where
  "positionalLoop env tys posFields raw [] sv consumed = Inr (sv, consumed)"
| "positionalLoop env tys posFields raw (p # ps) sv consumed =
     (case map_of posFields p of
        None \<Rightarrow> positionalLoop env tys posFields raw ps sv consumed
      | Some fi \<Rightarrow>
          if consumed \<ge> length raw then Inl (NotEnoughPositional p)
          else (case parseAndSetField env tys sv fi (raw ! consumed) of
                  Inl err \<Rightarrow> Inl (ParsePositionalFailed p err)
                | Inr sv' \<Rightarrow> positionalLoop env tys posFields raw ps sv' (consumed + 1)))"

text \<open>
  The positions that the counter \<open>p\<close> takes, \<open>mx\<close> being \<^verbatim>\<open>max\<close>. Below the greatest
  \<^verbatim>\<open>int\<close> they are 0 to \<open>mx\<close>, after which the loop ends. When \<open>mx\<close> is the greatest \<^verbatim>\<open>int\<close>, \<^verbatim>\<open>p++\<close> wraps to the
  least one and \<^verbatim>\<open>p <= max\<close> holds for ever: the loop goes round the whole range again and
  again and can only be left by an error; \<open>rounds\<close> is the number of further rounds that
  are written out.
\<close>

definition visited :: "env \<Rightarrow> int \<Rightarrow> nat \<Rightarrow> int list" where
  "visited env mx rounds =
     (if mx < maxInt env then [0 .. mx]
      else [0 .. maxInt env] @ concat (replicate rounds [minInt env .. maxInt env]))"

text \<open>
  The positional phase of \<^verbatim>\<open>parseStructArgs\<close>. A round that does not fail takes a token at
  position \<^verbatim>\<open>max\<close>, so the loop has failed before the end of \<open>length raw + 1\<close> rounds.
\<close>

definition positionalPhase ::
  "env \<Rightarrow> ty list \<Rightarrow> (int \<times> nat) list \<Rightarrow> string list \<Rightarrow> val list \<Rightarrow> error + (val list \<times> nat)" where
  "positionalPhase env tys posFields raw sv =
     (if length posFields > 0
      then positionalLoop env tys posFields raw
             (visited env (maxPosition posFields (- 1)) (Suc (length raw))) sv 0
      else Inr (sv, 0))"

text \<open>
  The same loop, written with the counter itself; \<open>None\<close> is a loop that does not end.
\<close>

partial_function (option) positionalLoopInt ::
  "env \<Rightarrow> ty list \<Rightarrow> (int \<times> nat) list \<Rightarrow> string list \<Rightarrow> int \<Rightarrow> int \<Rightarrow> val list \<Rightarrow> nat
     \<Rightarrow> (error + (val list \<times> nat)) option" where
  "positionalLoopInt env tys posFields raw mx p sv consumed =
     (if p \<le> mx then
        (case map_of posFields p of
           None \<Rightarrow> positionalLoopInt env tys posFields raw mx (incr env p) sv consumed
         | Some fi \<Rightarrow>
             if consumed \<ge> length raw then Some (Inl (NotEnoughPositional p))
             else (case parseAndSetField env tys sv fi (raw ! consumed) of
                     Inl err \<Rightarrow> Some (Inl (ParsePositionalFailed p err))
                   | Inr sv' \<Rightarrow>
                       positionalLoopInt env tys posFields raw mx (incr env p) sv'
                         (consumed + 1)))
      else Some (Inr (sv, consumed)))"

declare positionalLoopInt.simps [code]

text \<open>
  The loop \<^verbatim>\<open>for i < len(raw)\<close> that scans options. The result is the struct value and the
  final value of the cursor \<open>i\<close>.
\<close>

function scanOptions ::
  "env \<Rightarrow> ty list \<Rightarrow> (string \<times> nat) list \<Rightarrow> (string \<times> nat) list \<Rightarrow> string list \<Rightarrow> nat \<Rightarrow> val list
     \<Rightarrow> error + (val list \<times> nat)" where
  "scanOptions env tys longMap shortMap raw i sv =
     (if i < length raw then
        (let tok = raw ! i in
         if HasPrefix tok ''--'' then
           (case IndexByte tok (CHR ''='') of
              Some eq \<Rightarrow>
                (let name = take eq tok; val = drop (eq + 1) tok in
                 case map_of longMap name of
                   Some fi \<Rightarrow>
                     (case parseAndSetField env tys sv fi val of
                        Inl err \<Rightarrow> Inl (ParseOptionFailed name err)
                      | Inr sv' \<Rightarrow> scanOptions env tys longMap shortMap raw (i + 1) sv')
                 | None \<Rightarrow> scanOptions env tys longMap shortMap raw (i + 1) sv)
            | None \<Rightarrow>
                (case map_of longMap tok of
                   Some fi \<Rightarrow>
                     if isBoolField (tys ! fi)
                     then scanOptions env tys longMap shortMap raw (i + 1) (setBoolField tys sv fi)
                     else if i + 1 \<ge> length raw then Inl (MissingValue tok)
                     else (case parseAndSetField env tys sv fi (raw ! (i + 1)) of
                             Inl err \<Rightarrow> Inl (ParseOptionFailed tok err)
                           | Inr sv' \<Rightarrow> scanOptions env tys longMap shortMap raw (i + 2) sv')
                 | None \<Rightarrow> Inl (UnknownOption tok)))
         else if HasPrefix tok ''-'' \<and> length tok \<ge> 2 then
           (case map_of shortMap tok of
              Some fi \<Rightarrow>
                if isBoolField (tys ! fi)
                then scanOptions env tys longMap shortMap raw (i + 1) (setBoolField tys sv fi)
                else if i + 1 \<ge> length raw then Inl (MissingValue tok)
                else (case parseAndSetField env tys sv fi (raw ! (i + 1)) of
                        Inl err \<Rightarrow> Inl (ParseOptionFailed tok err)
                      | Inr sv' \<Rightarrow> scanOptions env tys longMap shortMap raw (i + 2) sv')
            | None \<Rightarrow> Inl (UnknownOption tok))
         else Inr (sv, i))
      else Inr (sv, i))"
  by pat_completeness auto
termination
  by (relation "measure (\<lambda>(env, tys, longMap, shortMap, raw, i, sv). length raw - i)") auto

declare scanOptions.simps [simp del]

text \<open>
  \<^verbatim>\<open>parseStructArgs(raw, t)\<close>. What is returned after the scan is \<open>consumed\<close>, the count
  left by the positional loop, and not the cursor \<open>i\<close> of the scan.
\<close>

definition parseStructArgs :: "env \<Rightarrow> string list \<Rightarrow> ty \<Rightarrow> error + (val \<times> nat)" where
  "parseStructArgs env raw t =
     (case t of
        TStruct n fs \<Rightarrow>
          (let tys = map ftype fs;
               sv = zeroFields fs;
               (posFields, longMap, shortMap) = buildFieldMaps env fs
           in case positionalPhase env tys posFields raw sv of
                Inl err \<Rightarrow> Inl err
              | Inr (sv1, consumed) \<Rightarrow>
                  (case scanOptions env tys longMap shortMap raw consumed sv1 of
                     Inl err \<Rightarrow> Inl err
                   | Inr (sv2, i) \<Rightarrow> Inr (VStruct sv2, consumed)))
      | _ \<Rightarrow> Inl NotStruct)"

subsection \<open>Application, handlers and the outside world\<close>

text \<open>
  The world a run acts on: what has been written to each writer, and \<open>usr\<close>, whatever else
  a handler function can change. A handler function takes the bound arguments and the
  world, and gives the new world and its last result, read as an error when the handler's
  type says so (\<open>None\<close> is \<^verbatim>\<open>nil\<close>). The field \<^verbatim>\<open>help\<close> of a handler is \<open>helpText\<close>
  here.
\<close>

datatype writer = Stdout | Stderr | Writer nat

record 'u world =
  written :: "writer \<Rightarrow> string"
  usr :: 'u

record 'u handler =
  fn :: "val list \<Rightarrow> 'u world \<Rightarrow> 'u world \<times> error option"
  targs :: "ty list"
  expectsError :: bool
  helpText :: string

text \<open>
  \<^verbatim>\<open>Options\<close> as an \<^verbatim>\<open>App\<close> holds them: the fields of \<^verbatim>\<open>App\<close> are unexported and \<^verbatim>\<open>New\<close>
  replaces a nil writer, so both writers are present.
\<close>

record Options =
  ExitOnError :: bool
  Log :: writer
  LogError :: writer

record 'u App =
  cmds :: "(string \<times> 'u handler) list"
  root :: "'u handler option"
  opts :: Options

text \<open>
  \<^verbatim>\<open>New(opts)\<close>, given the three fields of \<open>opts\<close> (\<open>None\<close> for a nil writer), and
  \<^verbatim>\<open>Add\<close>, given a function value as the handler that reflection derives from it (parameter
  types, whether the last result is an error); \<^verbatim>\<open>Add\<close> panics on anything else.
\<close>

definition New :: "bool \<Rightarrow> writer option \<Rightarrow> writer option \<Rightarrow> 'u App" where
  "New exitOnError log logError =
     \<lparr>cmds = [], root = None,
      opts = \<lparr>ExitOnError = exitOnError,
              Log = (case log of None \<Rightarrow> Stdout | Some l \<Rightarrow> l),
              LogError = (case logError of None \<Rightarrow> Stderr | Some l \<Rightarrow> l)\<rparr>\<rparr>"

definition Default :: "'u App" where
  "Default = New True (Some Stdout) (Some Stderr)"

definition Add :: "'u App \<Rightarrow> string \<Rightarrow> 'u handler \<Rightarrow> 'u App" where
  "Add a name h =
     (if name = [] then a\<lparr>root := Some h\<rparr>
      else a\<lparr>cmds := AList.update name h (cmds a)\<rparr>)"

text \<open>
  How a run ends: it returns, the process exits, it panics, or it does not end. A run
  that does not end has no last world: the world given with \<open>NoReturn\<close> is the world
  before the run and says nothing of what the run writes.
\<close>

datatype outcome = Return "error option" | Exit int | Panic | NoReturn

definition Fprint :: "writer \<Rightarrow> string \<Rightarrow> 'u world \<Rightarrow> 'u world" where
  "Fprint wr s w = w\<lparr>written := (written w)(wr := written w wr @ s)\<rparr>"

definition ln :: "string \<Rightarrow> string" where
  "ln s = s @ [CHR 0x0A]"

fun Error :: "env \<Rightarrow> error \<Rightarrow> string" where
  "Error env (NumError f num e) =
     ''strconv.'' @ f @ '': parsing '' @ Quote env num @ '': '' @
       (case e of ErrSyntax \<Rightarrow> ''invalid syntax'' | ErrRange \<Rightarrow> ''value out of range'')"
| "Error env (UnsupportedType n) = ''unsupported parameter type: '' @ n"
| "Error env (UnknownCommand s) = ''unknown command: '' @ s"
| "Error env (ParseStructArgFailed i name e) =
     ''failed to parse struct arg '' @ natStr i @ '' for '' @ name @ '': '' @ Error env e"
| "Error env (NotEnoughArguments name want got) =
     ''not enough arguments for '' @ name @ '': want '' @ natStr want @ '', got '' @ natStr got"
| "Error env (ParseArgFailed i name e) =
     ''failed to parse arg '' @ natStr i @ '' for '' @ name @ '': '' @ Error env e"
| "Error env (UnknownOption s) = ''unknown option: '' @ s"
| "Error env (WrongNumberOfArguments name want got) =
     ''wrong number of arguments for '' @ name @ '': want '' @ natStr want @ '', got '' @ natStr got"
| "Error env NotStruct = ''parseStructArgs: t must be struct''"
| "Error env (NotEnoughPositional p) =
     ''not enough positional args for struct: need position '' @ Itoa p"
| "Error env (ParsePositionalFailed p e) =
     ''failed to parse positional arg at position '' @ Itoa p @ '': '' @ Error env e"
| "Error env (ParseOptionFailed name e) =
     ''failed to parse value for option '' @ name @ '': '' @ Error env e"
| "Error env (MissingValue name) = ''missing value for '' @ name"
| "Error env (HandlerError msg) = msg"

text \<open>
  \<^verbatim>\<open>handleError\<close>, called with a non-nil error. The application, its options and the
  error writer are not nil, so the fallback to \<^verbatim>\<open>os.Stderr\<close> is not reached.
\<close>

definition handleError :: "env \<Rightarrow> 'u App \<Rightarrow> error \<Rightarrow> 'u world \<Rightarrow> outcome \<times> 'u world" where
  "handleError env a err w =
     (if ExitOnError (opts a)
      then (Exit 1, Fprint (LogError (opts a)) (ln (Error env err)) w)
      else (Return (Some err), w))"

subsection \<open>Help rendering\<close>

text \<open>
  The help printers write every line to \<^verbatim>\<open>a.opts.Log\<close>; each is modelled by the text it
  writes, \<^verbatim>\<open>printCommandHelp\<close> by \<open>None\<close> when it does not end.
\<close>

definition printCommonOptions :: string where
  "printCommonOptions = ln ''Options:'' @ ln ''  -h|--help               Show this help''"

definition getTypeLabel :: "ty \<Rightarrow> string" where
  "getTypeLabel t0 =
     (let t = (case t0 of TPtr e \<Rightarrow> e | _ \<Rightarrow> t0); s = tyString t in
      if s = ''string'' then ''<string>''
      else if s = ''int'' then ''<int>''
      else if s = ''int64'' then ''<int64>''
      else if s = ''float64'' then ''<float64>''
      else if s = ''bool'' then ''<bool>''
      else ''<value>'')"

text \<open>\<^verbatim>\<open>%-*s\<close>: padding on the right to a width counted in runes.\<close>

definition padRight :: "nat \<Rightarrow> string \<Rightarrow> string" where
  "padRight width s = s @ replicate (width - runeCount s) (CHR '' '')"

definition printHelp :: "'u App \<Rightarrow> string" where
  "printHelp a =
     (if root a = None then ln ''Usage: [options...]'' @ ln []
      else ln ''Usage:'' @ ln ''  command <args...> [options...]'' @ ln []) @
     ln ''Commands:'' @
     (let max = fold (\<lambda>(name, h) m. if length name > m then length name else m) (cmds a) 0
      in concat (map (\<lambda>(name, h).
                   if helpText h \<noteq> [] then ln (''  '' @ padRight max name @ ''  '' @ helpText h)
                   else ln (''  '' @ name)) (cmds a))) @
     ln [] @
     printCommonOptions"

definition isStructParam :: "ty \<Rightarrow> bool" where
  "isStructParam t = (case t of TStruct n fs \<Rightarrow> True | TPtr (TStruct n fs) \<Rightarrow> True | _ \<Rightarrow> False)"

text \<open>The fields of the struct parameters of a handler, in the order the printer visits them.\<close>

fun structFields :: "ty list \<Rightarrow> field list" where
  "structFields [] = []"
| "structFields (TStruct n fs # ts) = fs @ structFields ts"
| "structFields (TPtr (TStruct n fs) # ts) = fs @ structFields ts"
| "structFields (t # ts) = structFields ts"

fun collectPositional ::
  "env \<Rightarrow> field list \<Rightarrow> (int \<times> string) list \<times> int \<Rightarrow> (int \<times> string) list \<times> int" where
  "collectPositional env [] acc = acc"
| "collectPositional env (f # fs) (posMap, maxPos) =
     (case Lookup (ftag f) ''arg'' of
        Some v \<Rightarrow>
          (case Atoi env v of
             Inr n \<Rightarrow>
               collectPositional env fs
                 (AList.update n
                    (case Lookup (ftag f) ''help'' of
                       Some d \<Rightarrow> if d \<noteq> [] then d else toWords env (fname f)
                     | None \<Rightarrow> toWords env (fname f)) posMap,
                  if n > maxPos then n else maxPos)
           | Inl err \<Rightarrow> collectPositional env fs (posMap, maxPos))
      | None \<Rightarrow> collectPositional env fs (posMap, maxPos))"

definition optionLine :: "env \<Rightarrow> field \<Rightarrow> string" where
  "optionLine env f =
     (let tag = ftag f;
          longName = (case Lookup tag ''long'' of
                        Some v \<Rightarrow> if v \<noteq> [] then v else ''--'' @ toKebab env (fname f)
                      | None \<Rightarrow> ''--'' @ toKebab env (fname f));
          shortName = (case Lookup tag ''short'' of Some v \<Rightarrow> v | None \<Rightarrow> []);
          desc = (case Lookup tag ''help'' of Some d \<Rightarrow> d | None \<Rightarrow> []);
          isFlag = (ftype f = TBool \<or> ftype f = TPtr TBool);
          typeLabel = (if \<not> isFlag then '' '' @ getTypeLabel (ftype f) else [])
      in if shortName \<noteq> []
         then ln (''  '' @ shortName @ ''|'' @ longName @ typeLabel @ ''    '' @ desc)
         else ln (''  '' @ longName @ typeLabel @ ''    '' @ desc))"

definition programName :: "env \<Rightarrow> string \<Rightarrow> string" where
  "programName env name =
     (if name = [] then (case osArgs env of arg0 # rest \<Rightarrow> arg0 | [] \<Rightarrow> ''command'')
      else name)"

text \<open>
  The loop \<^verbatim>\<open>for i := 0; i <= maxPos; i++\<close> of the Arguments block; \<open>out\<close> is what it has
  written. When \<open>maxPos\<close> is the greatest \<^verbatim>\<open>int\<close> the counter wraps and the loop does not
  end.
\<close>

partial_function (option) argumentLines ::
  "env \<Rightarrow> (int \<times> string) list \<Rightarrow> int \<Rightarrow> int \<Rightarrow> string \<Rightarrow> string option" where
  "argumentLines env posMap maxPos i out =
     (if i \<le> maxPos
      then argumentLines env posMap maxPos (incr env i)
             (out @ ln (''  ['' @ Itoa i @ ''] '' @
                (case map_of posMap i of
                   Some n \<Rightarrow> if n = [] then ''arg'' @ Itoa i else n
                 | None \<Rightarrow> ''arg'' @ Itoa i)))
      else Some out)"

declare argumentLines.simps [code]

definition printCommandHelp :: "env \<Rightarrow> 'u App \<Rightarrow> string \<Rightarrow> 'u handler \<Rightarrow> string option" where
  "printCommandHelp env a name h =
     (let helpLines = (if helpText h \<noteq> [] then ln (helpText h) @ ln [] else []);
          primitiveOnly = \<not> list_ex isStructParam (targs h)
      in
      if primitiveOnly \<and> length (targs h) > 0 then
        Some (helpLines @
          ln (''Usage: '' @ programName env name @ '' <args...>'') @ ln [] @
          ln ''Arguments:'' @
          concat (map (\<lambda>(i, t). ln (''  ['' @ natStr i @ ''] arg'' @ natStr i @ '' '' @ getTypeLabel t))
                    (enumerate 0 (targs h))) @
          ln [] @
          printCommonOptions)
      else
        (let fs = structFields (targs h);
             (posMap, maxPos) = collectPositional env fs ([], - 1)
         in case (if maxPos \<ge> 0 then argumentLines env posMap maxPos 0 [] else Some []) of
              None \<Rightarrow> None
            | Some arguments \<Rightarrow>
                Some (helpLines @
                  (if maxPos \<ge> 0
                   then ln (''Usage: '' @ programName env name @ '' <args...> [options...]'')
                   else ln (''Usage: '' @ programName env name @ '' [options...]'')) @
                  ln [] @ ln [] @
                  (if maxPos \<ge> 0 then ln ''Arguments:'' @ arguments @ ln [] else []) @
                  (if name = []
                   then ln ''Commands:'' @
                        concat (map (\<lambda>(cname, ch). ln (''  '' @ cname @ '' (args: '' @
                                       natStr (length (targs ch)) @ '')'')) (cmds a)) @
                        ln []
                   else []) @
                  ln ''Options:'' @
                  ln ''  -h|--help               Show this help'' @
                  concat (map (optionLine env)
                            (filter (\<lambda>f. Lookup (ftag f) ''arg'' = None) fs)))))"

subsection \<open>Run: resolution\<close>

definition isHelpToken :: "string \<Rightarrow> bool" where
  "isHelpToken tok = (tok = ''-h'' \<or> tok = ''--help'')"

text \<open>
  The loop \<^verbatim>\<open>for name, h := range a.cmds\<close>, with its three variables. \<open>bestHandler\<close>
  starts as the zero handler, here \<open>None\<close>.
\<close>

fun matchCommands ::
  "string list \<Rightarrow> (string \<times> 'u handler) list \<Rightarrow> string \<times> 'u handler option \<times> nat
     \<Rightarrow> string \<times> 'u handler option \<times> nat" where
  "matchCommands args [] best = best"
| "matchCommands args ((name, h) # rest) (bestName, bestHandler, bestLen) =
     (let tokens = Fields name in
      if length tokens = 0 then matchCommands args rest (bestName, bestHandler, bestLen)
      else if length tokens > length args
      then matchCommands args rest (bestName, bestHandler, bestLen)
      else if take (length tokens) args = tokens \<and> length tokens > bestLen
      then matchCommands args rest (name, Some h, length tokens)
      else matchCommands args rest (bestName, bestHandler, bestLen))"

text \<open>The loop and the fallback to the root handler; \<open>first\<close> is \<^verbatim>\<open>args[0]\<close>.\<close>

definition resolve ::
  "'u App \<Rightarrow> string \<Rightarrow> string list \<Rightarrow> error + (string \<times> 'u handler option \<times> nat)" where
  "resolve a first args =
     (let (bestName, bestHandler, bestLen) = matchCommands args (cmds a) ([], None, 0) in
      if bestLen = 0 then
        (case root a of
           Some r \<Rightarrow> Inr (''(root)'', Some r, 0)
         | None \<Rightarrow> Inl (UnknownCommand first))
      else Inr (bestName, bestHandler, bestLen))"

subsection \<open>Run: binding\<close>

text \<open>
  Record mode: the loop over \<^verbatim>\<open>h.targs\<close> with the cursor \<open>ri\<close>; \<open>i\<close> is the index of the
  parameter and \<open>n\<close> is \<^verbatim>\<open>len(h.targs)\<close>.
\<close>

fun bindStructMode ::
  "env \<Rightarrow> string \<Rightarrow> nat \<Rightarrow> string list \<Rightarrow> ty list \<Rightarrow> nat \<Rightarrow> nat \<Rightarrow> error + val list" where
  "bindStructMode env bestName n rawArgs [] i ri = Inr []"
| "bindStructMode env bestName n rawArgs (t # ts) i ri =
     (if isStructParam t then
        (let structType = (case t of TPtr e \<Rightarrow> e | _ \<Rightarrow> t);
             wantPtr = (case t of TPtr e \<Rightarrow> True | _ \<Rightarrow> False)
         in case parseStructArgs env (drop ri rawArgs) structType of
              Inl err \<Rightarrow> Inl (ParseStructArgFailed (i + 1) bestName err)
            | Inr (sv, nused) \<Rightarrow>
                (case bindStructMode env bestName n rawArgs ts (i + 1) (ri + nused) of
                   Inl err \<Rightarrow> Inl err
                 | Inr parsed \<Rightarrow> Inr ((if wantPtr then VPtr (Some sv) else sv) # parsed)))
      else if ri \<ge> length rawArgs then Inl (NotEnoughArguments bestName n (length rawArgs))
      else (case parseValue env (rawArgs ! ri) t of
              Inl err \<Rightarrow> Inl (ParseArgFailed (i + 1) bestName err)
            | Inr v \<Rightarrow>
                (case bindStructMode env bestName n rawArgs ts (i + 1) (ri + 1) of
                   Inl err \<Rightarrow> Inl err
                 | Inr parsed \<Rightarrow> Inr (v # parsed))))"

text \<open>Positional mode: the last loop, over parameters and tokens of equal number.\<close>

fun parsePositional ::
  "env \<Rightarrow> string \<Rightarrow> string list \<Rightarrow> ty list \<Rightarrow> nat \<Rightarrow> error + val list" where
  "parsePositional env bestName rawArgs [] i = Inr []"
| "parsePositional env bestName rawArgs (t # ts) i =
     (case parseValue env (rawArgs ! i) t of
        Inl err \<Rightarrow> Inl (ParseArgFailed (i + 1) bestName err)
      | Inr v \<Rightarrow>
          (case parsePositional env bestName rawArgs ts (i + 1) of
             Inl err \<Rightarrow> Inl err
           | Inr parsed \<Rightarrow> Inr (v # parsed)))"

definition bindPositionalMode ::
  "env \<Rightarrow> string \<Rightarrow> string list \<Rightarrow> ty list \<Rightarrow> error + val list" where
  "bindPositionalMode env bestName rawArgs ts =
     (case find (\<lambda>arg. HasPrefix arg ''--'') rawArgs of
        Some arg \<Rightarrow> Inl (UnknownOption arg)
      | None \<Rightarrow>
          if length rawArgs \<noteq> length ts
          then Inl (WrongNumberOfArguments bestName (length ts) (length rawArgs))
          else parsePositional env bestName rawArgs ts 0)"

definition bindArgs :: "env \<Rightarrow> string \<Rightarrow> 'u handler \<Rightarrow> string list \<Rightarrow> error + val list" where
  "bindArgs env bestName h rawArgs =
     (let usesStruct = list_ex isStructParam (targs h) in
      if usesStruct then bindStructMode env bestName (length (targs h)) rawArgs (targs h) 0 0
      else bindPositionalMode env bestName rawArgs (targs h))"

subsection \<open>Run: invocation\<close>

definition invoke :: "'u handler \<Rightarrow> val list \<Rightarrow> 'u world \<Rightarrow> outcome \<times> 'u world" where
  "invoke h parsed w =
     (let (w', last) = fn h parsed w in
      if expectsError h then
        (case last of
           Some err \<Rightarrow> (Return (Some err), w')
         | None \<Rightarrow> (Return None, w'))
      else (Return None, w'))"

text \<open>
  \<^verbatim>\<open>a.printCommandHelp(name, h); return nil\<close>. The printer writes line by line; when it
  returns, the writer has received its whole text.
\<close>

definition showCommandHelp ::
  "env \<Rightarrow> 'u App \<Rightarrow> string \<Rightarrow> 'u handler \<Rightarrow> 'u world \<Rightarrow> outcome \<times> 'u world" where
  "showCommandHelp env a name h w =
     (case printCommandHelp env a name h of
        Some text \<Rightarrow> (Return None, Fprint (Log (opts a)) text w)
      | None \<Rightarrow> (NoReturn, w))"

definition rootOrGlobalHelp :: "env \<Rightarrow> 'u App \<Rightarrow> 'u world \<Rightarrow> outcome \<times> 'u world" where
  "rootOrGlobalHelp env a w =
     (case root a of
        Some r \<Rightarrow> showCommandHelp env a [] r w
      | None \<Rightarrow> (Return None, Fprint (Log (opts a)) (printHelp a) w))"

text \<open>
  \<^verbatim>\<open>Run\<close> on a non-nil \<open>args\<close>. A resolution with the zero handler would end in the call of
  a zero function value, a panic; resolution never gives it.
\<close>

definition RunArgs :: "env \<Rightarrow> 'u App \<Rightarrow> string list \<Rightarrow> 'u world \<Rightarrow> outcome \<times> 'u world" where
  "RunArgs env a args w =
     (case args of
        [] \<Rightarrow> rootOrGlobalHelp env a w
      | first # rest \<Rightarrow>
          if first = ''-h'' \<or> first = ''--help'' \<or> first = ''help''
          then rootOrGlobalHelp env a w
          else
            (case resolve a first args of
               Inl err \<Rightarrow> handleError env a err w
             | Inr (bestName, bestHandler, bestLen) \<Rightarrow>
                 (case bestHandler of
                    None \<Rightarrow> (Panic, w)
                  | Some h \<Rightarrow>
                      (let rawArgs = drop bestLen args in
                       if length rawArgs > 0 \<and> isHelpToken (hd rawArgs)
                       then showCommandHelp env a bestName h w
                       else
                         (case bindArgs env bestName h rawArgs of
                            Inl err \<Rightarrow> handleError env a err w
                          | Inr parsed \<Rightarrow> invoke h parsed w)))))"

text \<open>
  \<^verbatim>\<open>Run(args...)\<close>: a nil \<open>args\<close> (\<open>None\<close>) stands for \<^verbatim>\<open>os.Args[1:]\<close>, which panics
  when \<^verbatim>\<open>os.Args\<close> is empty.
\<close>

definition Run :: "env \<Rightarrow> 'u App \<Rightarrow> string list option \<Rightarrow> 'u world \<Rightarrow> outcome \<times> 'u world" where
  "Run env a args w =
     (case args of
        None \<Rightarrow> (case osArgs env of [] \<Rightarrow> (Panic, w) | arg0 # rest \<Rightarrow> RunArgs env a rest w)
      | Some as \<Rightarrow> RunArgs env a as w)"

subsection \<open>Example inputs\<close>

text \<open>
  An environment for the examples (no example parses a \<^verbatim>\<open>float64\<close>, quotes a token or has
  a name beyond ASCII), the struct type of
  \<^verbatim>\<open>TestStructArgParsing\<close>, and handlers that record the arguments they are called with.
\<close>

definition testEnv :: env where
  "testEnv = \<lparr>osArgs = [''cmd''], intSize = 64,
              ParseFloat = (\<lambda>s. Inl ErrSyntax),
              Quote = (\<lambda>s. [CHR 0x22] @ s @ [CHR 0x22]),
              IsUpper = (\<lambda>r. False), ToLower = (\<lambda>r. r)\<rparr>"

definition CreateTextArgs :: ty where
  "CreateTextArgs = TStruct ''cliapp.CreateTextArgs''
     [Field ''Input'' TString [(''arg'', ''0'')],
      Field ''Output'' TString [(''long'', ''--out''), (''short'', ''-o'')],
      Field ''UseMarkdown'' TBool [(''flag'', []), (''long'', ''--usemarkdown'')]]"

definition recorder :: "ty list \<Rightarrow> string \<Rightarrow> (val list) handler" where
  "recorder ts txt =
     \<lparr>fn = (\<lambda>parsed w. (w\<lparr>usr := parsed\<rparr>, None)), targs = ts,
      expectsError = False, helpText = txt\<rparr>"

definition failing :: "string \<Rightarrow> (val list) handler" where
  "failing msg =
     \<lparr>fn = (\<lambda>parsed w. (w, Some (HandlerError msg))), targs = [],
      expectsError = True, helpText = []\<rparr>"

definition world0 :: "(val list) world" where
  "world0 = \<lparr>written = (\<lambda>wr. []), usr = []\<rparr>"

definition GreetOpts :: ty where
  "GreetOpts = TStruct ''main.GreetOpts'' [Field ''Verbose'' TBool []]"

definition greetApp :: "(val list) App" where
  "greetApp = Add (New False None None) ''greet'' (recorder [GreetOpts, TString] [])"

definition failApp :: "(val list) App" where
  "failApp = Add Default ''fail'' (failing ''boom'')"

definition echoApp :: "(val list) App" where
  "echoApp = Add (New False None None) ''echo'' (recorder [TString] [])"

definition abcApp :: "(val list) App" where
  "abcApp =
     Add (Add (Add (New False None None) ''a'' (recorder [] ''one''))
            ''a b'' (recorder [] ''two''))
       ''a b c'' (recorder [] ''three'')"

definition abApp :: "(val list) App" where
  "abApp = Add (Add (New False None None) ''a'' (recorder [] ''one'')) ''a b'' (recorder [] ''two'')"

definition addApp :: "(val list) App" where
  "addApp = Add (New False None None) ''add'' (recorder [TInt, TInt] [])"

definition rootApp :: "(val list) App" where
  "rootApp = Add (Add (New False None None) [] (recorder [TString] ''the root''))
               ''add'' (recorder [TInt, TInt] [])"

definition helpTopicsApp :: "(val list) App" where
  "helpTopicsApp =
     Add (Add (New False None None) ''help'' (recorder [TString] ''one''))
       ''help topics'' (recorder [] ''two'')"

text \<open>A struct whose positional index is the greatest \<^verbatim>\<open>int\<close> of 64 bits.\<close>

definition FarArgs :: ty where
  "FarArgs = TStruct ''main.FarArgs''
     [Field ''Input'' TString [(''arg'', ''9223372036854775807'')]]"

definition farRootApp :: "(val list) App" where
  "farRootApp = Add (New False None None) [] (recorder [FarArgs] [])"

definition createRootApp :: "(val list) App" where
  "createRootApp =
     Add (New False None None) [] (recorder [CreateTextArgs] ''Create a text file'')"

subsection \<open>The positional phase as the specification words it\<close>

text \<open>
  Written from the specification, not from the code: the registered positions from 0 to
  the greatest declared index in ascending order, each with its field; and a binder that
  walks them, taking exactly one token per position and failing when none is left.
\<close>

definition registeredPositions :: "(int \<times> nat) list \<Rightarrow> (int \<times> nat) list" where
  "registeredPositions posFields =
     concat (map (\<lambda>p. case map_of posFields p of Some fi \<Rightarrow> [(p, fi)] | None \<Rightarrow> [])
               [0 .. Max (set (map fst posFields))])"

fun bindPositions ::
  "env \<Rightarrow> ty list \<Rightarrow> string list \<Rightarrow> (int \<times> nat) list \<Rightarrow> val list \<Rightarrow> nat
     \<Rightarrow> error + (val list \<times> nat)" where
  "bindPositions env tys raw [] sv cursor = Inr (sv, cursor)"
| "bindPositions env tys raw ((p, fi) # regs) sv cursor =
     (if cursor < length raw
      then (case parseAndSetField env tys sv fi (raw ! cursor) of
              Inl err \<Rightarrow> Inl (ParsePositionalFailed p err)
            | Inr sv' \<Rightarrow> bindPositions env tys raw regs sv' (cursor + 1))
      else Inl (NotEnoughPositional p))"

section \<open>Properties\<close>

subsection \<open>The range of \<^verbatim>\<open>int\<close>\<close>

lemma maxInt_nonneg: "0 \<le> maxInt env"
  by (simp add: maxInt_def)

lemma minInt_neg: "minInt env < 0"
  by (simp add: minInt_def)

lemma maxInt_testEnv:
  "maxInt testEnv = 9223372036854775807" "minInt testEnv = - 9223372036854775808"
  by (simp_all add: maxInt_def minInt_def testEnv_def)

subsection \<open>The count returned by the struct binder\<close>

lemma CreateTextArgs_maps:
  "buildFieldMaps testEnv
     [Field ''Input'' TString [(''arg'', ''0'')],
      Field ''Output'' TString [(''long'', ''--out''), (''short'', ''-o'')],
      Field ''UseMarkdown'' TBool [(''flag'', []), (''long'', ''--usemarkdown'')]]
   = ([(0, 0)], [(''--out'', 1), (''--usemarkdown'', 2)], [(''-o'', 1)])"
  by code_simp

lemma parseStructArgs_CreateTextArgs:
  "parseStructArgs testEnv [''hello.txt'', ''--out=out.txt'', ''--usemarkdown''] CreateTextArgs
     = Inr (VStruct [VString ''hello.txt'', VString ''out.txt'', VBool True], 1)"
  by code_simp

lemma scanOptions_CreateTextArgs:
  "scanOptions testEnv [TString, TString, TBool]
     [(''--out'', 1), (''--usemarkdown'', 2)] [(''-o'', 1)]
     [''hello.txt'', ''--out=out.txt'', ''--usemarkdown''] 1
     [VString ''hello.txt'', VString [], VBool False]
     = Inr ([VString ''hello.txt'', VString ''out.txt'', VBool True], 3)"
  by code_simp

lemma Run_greet_verbose:
  "usr (snd (Run testEnv greetApp (Some [''greet'', ''--verbose'', ''bob'']) world0))
     = [VStruct [VBool True], VString ''--verbose'']"
  by code_simp

text \<open>In general, the count of a successful parse is the count of the positional phase.\<close>

lemma parseStructArgs_consumed_is_positional:
  assumes "parseStructArgs env raw (TStruct n fs) = Inr (v, c)"
  shows "\<exists>sv1. positionalPhase env (map ftype fs) (fst (buildFieldMaps env fs)) raw (zeroFields fs)
                 = Inr (sv1, c)"
  using assms
  by (auto simp: parseStructArgs_def Let_def split: prod.splits sum.splits)

text \<open>
  C1. The struct binder is to return the number of tokens it processed, positional tokens
  and option tokens together. On the input of \<^verbatim>\<open>TestStructArgParsing\<close> the option scan
  (on the field maps of the struct, from cursor 1) ends with its cursor at 3, after three
  processed tokens, and the binder returns 1, the positional count alone. In \<^verbatim>\<open>Run\<close> the
  cursor of a handler \<^verbatim>\<open>func(GreetOpts, string)\<close> is therefore not moved past
  \<^verbatim>\<open>--verbose\<close>, and the string parameter receives that token again instead of \<^verbatim>\<open>bob\<close>.
\<close>

theorem parseStructArgs_returns_positional_count_only:
  "parseStructArgs testEnv [''hello.txt'', ''--out=out.txt'', ''--usemarkdown''] CreateTextArgs
     = Inr (VStruct [VString ''hello.txt'', VString ''out.txt'', VBool True], 1)
   \<and> buildFieldMaps testEnv
         [Field ''Input'' TString [(''arg'', ''0'')],
          Field ''Output'' TString [(''long'', ''--out''), (''short'', ''-o'')],
          Field ''UseMarkdown'' TBool [(''flag'', []), (''long'', ''--usemarkdown'')]]
     = ([(0, 0)], [(''--out'', 1), (''--usemarkdown'', 2)], [(''-o'', 1)])
   \<and> scanOptions testEnv [TString, TString, TBool]
         [(''--out'', 1), (''--usemarkdown'', 2)] [(''-o'', 1)]
         [''hello.txt'', ''--out=out.txt'', ''--usemarkdown''] 1
         [VString ''hello.txt'', VString [], VBool False]
     = Inr ([VString ''hello.txt'', VString ''out.txt'', VBool True], 3)
   \<and> usr (snd (Run testEnv greetApp (Some [''greet'', ''--verbose'', ''bob'']) world0))
     = [VStruct [VBool True], VString ''--verbose'']"
  using parseStructArgs_CreateTextArgs CreateTextArgs_maps scanOptions_CreateTextArgs
    Run_greet_verbose
  by (intro conjI)

subsection \<open>An error returned by the handler\<close>

text \<open>The call itself never exits, and writes nothing of its own.\<close>

lemma invoke_never_exits: "fst (invoke h parsed w) \<noteq> Exit n"
  by (simp add: invoke_def Let_def split: prod.splits option.splits)

lemma invoke_world: "snd (invoke h parsed w) = fst (fn h parsed w)"
  by (simp add: invoke_def Let_def split: prod.splits option.splits)

lemma Run_fail_outcome:
  "fst (Run testEnv failApp (Some [''fail'']) world0) = Return (Some (HandlerError ''boom''))"
  by code_simp

lemma Run_fail_written:
  "written (snd (Run testEnv failApp (Some [''fail'']) world0)) Stderr = []"
  by code_simp

lemma handleError_fail:
  "fst (handleError testEnv failApp (HandlerError ''boom'') world0) = Exit 1
   \<and> written (snd (handleError testEnv failApp (HandlerError ''boom'') world0)) Stderr
       = ln ''boom''"
  by code_simp

text \<open>
  C5. An error returned by the handler is to go the way of a binding failure: with
  \<^verbatim>\<open>ExitOnError\<close> set, its message is written to the error writer and the process exits
  with status 1. On the default application (\<^verbatim>\<open>ExitOnError\<close> set) with a handler that
  returns the error \<^verbatim>\<open>boom\<close>, \<^verbatim>\<open>Run\<close> returns the error to its caller and writes nothing,
  where \<^verbatim>\<open>handleError\<close> on the same error writes the message and exits.
\<close>

theorem Run_returns_handler_error_without_handleError:
  "ExitOnError (opts failApp)
   \<and> fst (Run testEnv failApp (Some [''fail'']) world0) = Return (Some (HandlerError ''boom''))
   \<and> written (snd (Run testEnv failApp (Some [''fail'']) world0)) Stderr = []
   \<and> fst (handleError testEnv failApp (HandlerError ''boom'') world0) = Exit 1
   \<and> written (snd (handleError testEnv failApp (HandlerError ''boom'') world0)) Stderr
       = ln ''boom''"
  using Run_fail_outcome Run_fail_written handleError_fail
  by (simp add: failApp_def Default_def New_def Add_def)

subsection \<open>Longest-prefix resolution\<close>

lemma matchCommands_step:
  "matchCommands args ((n, h) # cs) (bn, bh, bl) =
     matchCommands args cs
       (if Fields n \<noteq> [] \<and> length (Fields n) \<le> length args
           \<and> take (length (Fields n)) args = Fields n \<and> bl < length (Fields n)
        then (n, Some h, length (Fields n)) else (bn, bh, bl))"
  by (simp add: Let_def)

lemma matchCommands_unique:
  assumes "Fields n2 = [x, y]"
    and "\<forall>(n, h) \<in> set cs. 2 \<le> length (Fields n) \<and> take (length (Fields n)) (x # y # rest) = Fields n
           \<longrightarrow> (n, h) = (n2, h2)"
    and "(bl < 2 \<and> (n2, h2) \<in> set cs) \<or> (bn, bh, bl) = (n2, Some h2, 2)"
  shows "matchCommands (x # y # rest) cs (bn, bh, bl) = (n2, Some h2, 2)"
  using assms
proof (induction cs arbitrary: bn bh bl)
  case Nil
  then show ?case by simp
next
  case (Cons c cs)
  obtain n h where c: "c = (n, h)" by (cases c)
  let ?args = "x # y # rest"
  let ?m = "Fields n \<noteq> [] \<and> length (Fields n) \<le> length ?args
              \<and> take (length (Fields n)) ?args = Fields n \<and> bl < length (Fields n)"
  let ?st = "if ?m then (n, Some h, length (Fields n)) else (bn, bh, bl)"
  have step: "matchCommands ?args (c # cs) (bn, bh, bl) = matchCommands ?args cs ?st"
    unfolding c by (rule matchCommands_step)
  have rest: "\<forall>(n, h) \<in> set cs. 2 \<le> length (Fields n) \<and> take (length (Fields n)) ?args = Fields n
           \<longrightarrow> (n, h) = (n2, h2)"
    using Cons.prems(2) by auto
  have len2: "length (Fields n2) = 2"
    using Cons.prems(1) by simp
  have st: "(\<exists>bn' bh' bl'. ?st = (bn', bh', bl') \<and> bl' < 2 \<and> (n2, h2) \<in> set cs)
            \<or> ?st = (n2, Some h2, 2)"
  proof (cases "(n, h) = (n2, h2)")
    case True
    then have n: "n = n2" and h: "h = h2" by simp_all
    show ?thesis
    proof (cases "bl < 2")
      case True
      then have "?m" using Cons.prems(1) len2 by (simp add: n)
      then have "?st = (n2, Some h2, 2)" using len2 by (simp add: n h)
      then show ?thesis by blast
    next
      case False
      then have "(bn, bh, bl) = (n2, Some h2, 2)" using Cons.prems(3) by auto
      moreover have "\<not> ?m" using False len2 by (simp add: n)
      ultimately have "?st = (n2, Some h2, 2)" by simp
      then show ?thesis by blast
    qed
  next
    case False
    have "(n, h) \<in> set (c # cs)" by (simp add: c)
    with Cons.prems(2)
    have "2 \<le> length (Fields n) \<and> take (length (Fields n)) ?args = Fields n
            \<longrightarrow> (n, h) = (n2, h2)"
      by blast
    with False
    have small: "\<not> (2 \<le> length (Fields n) \<and> take (length (Fields n)) ?args = Fields n)"
      by blast
    show ?thesis
    proof (cases "(bn, bh, bl) = (n2, Some h2, 2)")
      case True
      then have "\<not> ?m" using small by auto
      then have "?st = (n2, Some h2, 2)" using True by simp
      then show ?thesis by blast
    next
      case F2: False
      then have bl: "bl < 2" and mem: "(n2, h2) \<in> set cs"
        using Cons.prems(3) False by (auto simp: c)
      show ?thesis
      proof (cases "?m")
        case True
        then have "length (Fields n) < 2" using small by auto
        moreover have "?st = (n, Some h, length (Fields n))" using True by simp
        ultimately show ?thesis using mem by blast
      next
        case False
        then have "?st = (bn, bh, bl)" by simp
        then show ?thesis using bl mem by blast
      qed
    qed
  qed
  from st show ?case
  proof
    assume "\<exists>bn' bh' bl'. ?st = (bn', bh', bl') \<and> bl' < 2 \<and> (n2, h2) \<in> set cs"
    then obtain bn' bh' bl' where e: "?st = (bn', bh', bl')" and b: "bl' < 2"
      and m: "(n2, h2) \<in> set cs" by blast
    have "matchCommands ?args cs (bn', bh', bl') = (n2, Some h2, 2)"
      using Cons.prems(1) rest b m by (intro Cons.IH) auto
    then show ?thesis using step e by simp
  next
    assume e: "?st = (n2, Some h2, 2)"
    have "matchCommands ?args cs (n2, Some h2, 2) = (n2, Some h2, 2)"
      using Cons.prems(1) rest by (intro Cons.IH) auto
    then show ?thesis using step e by simp
  qed
qed

lemma resolve_two_token:
  assumes "(n2, h2) \<in> set (cmds a)" "Fields n2 = [x, y]"
    and "\<forall>(n, h) \<in> set (cmds a).
           2 \<le> length (Fields n) \<and> take (length (Fields n)) (x # y # rest) = Fields n
           \<longrightarrow> (n, h) = (n2, h2)"
  shows "resolve a x (x # y # rest) = Inr (n2, Some h2, 2)"
proof -
  have "matchCommands (x # y # rest) (cmds a) ([], None, 0) = (n2, Some h2, 2)"
    using assms by (intro matchCommands_unique) auto
  then show ?thesis by (simp add: resolve_def)
qed

text \<open>
  C2, as amended. When the registry holds a one-token path \<open>x\<close> and a two-token path
  \<open>x y\<close>, the input begins with \<open>x\<close>, \<open>y\<close>, and no other registered path of two or
  more tokens is a prefix of the input, resolution selects the handler of the two-token
  path with matched length 2; and unless \<open>x\<close> is \<^verbatim>\<open>-h\<close>, \<^verbatim>\<open>--help\<close> or \<^verbatim>\<open>help\<close>, for which
  \<^verbatim>\<open>Run\<close> prints help before it resolves, \<^verbatim>\<open>Run\<close> strips exactly these two tokens: the
  help of the command and binding see the rest.
\<close>

theorem resolve_selects_two_token_path:
  assumes "(n1, h1) \<in> set (cmds a)" "Fields n1 = [x]"
    and "(n2, h2) \<in> set (cmds a)" "Fields n2 = [x, y]"
    and "\<forall>(n, h) \<in> set (cmds a).
           2 \<le> length (Fields n) \<and> take (length (Fields n)) (x # y # rest) = Fields n
           \<longrightarrow> (n, h) = (n2, h2)"
  shows "resolve a x (x # y # rest) = Inr (n2, Some h2, 2)
         \<and> (x \<notin> {''-h'', ''--help'', ''help''} \<longrightarrow>
              RunArgs env a (x # y # rest) w =
                (if length rest > 0 \<and> isHelpToken (hd rest)
                 then showCommandHelp env a n2 h2 w
                 else (case bindArgs env n2 h2 rest of
                         Inl err \<Rightarrow> handleError env a err w
                       | Inr parsed \<Rightarrow> invoke h2 parsed w)))"
proof -
  have r: "resolve a x (x # y # rest) = Inr (n2, Some h2, 2)"
    using assms(3,4,5) by (rule resolve_two_token)
  then show ?thesis by (simp add: RunArgs_def)
qed

text \<open>Resolution never gives the zero handler.\<close>

lemma matchCommands_handler_set:
  assumes "bl > 0 \<longrightarrow> bh \<noteq> None"
    and "matchCommands args cs (bn, bh, bl) = (bn', bh', bl')"
  shows "bl' > 0 \<longrightarrow> bh' \<noteq> None"
  using assms
proof (induction cs arbitrary: bn bh bl)
  case Nil
  then show ?case by simp
next
  case (Cons c cs)
  obtain n h where c: "c = (n, h)" by (cases c)
  let ?st = "if Fields n \<noteq> [] \<and> length (Fields n) \<le> length args
                \<and> take (length (Fields n)) args = Fields n \<and> bl < length (Fields n)
             then (n, Some h, length (Fields n)) else (bn, bh, bl)"
  obtain bn1 bh1 bl1 where st: "?st = (bn1, bh1, bl1)" by (cases ?st)
  have inv: "bl1 > 0 \<longrightarrow> bh1 \<noteq> None"
    using st Cons.prems(1) by (auto split: if_splits)
  have "matchCommands args cs (bn1, bh1, bl1) = (bn', bh', bl')"
    using Cons.prems(2) st unfolding c matchCommands_step by simp
  with inv show ?case by (rule Cons.IH)
qed

lemma resolve_handler_set:
  assumes "resolve a first args = Inr (bestName, bestHandler, bestLen)"
  shows "bestHandler \<noteq> None"
proof -
  obtain bn bh bl where m: "matchCommands args (cmds a) ([], None, 0) = (bn, bh, bl)"
    by (cases "matchCommands args (cmds a) ([], None, 0)")
  have inv: "bl > 0 \<longrightarrow> bh \<noteq> None"
    using matchCommands_handler_set [OF _ m] by simp
  show ?thesis
  proof (cases "bl = 0")
    case True
    show ?thesis
    proof (cases "root a")
      case None
      then show ?thesis using assms True by (simp add: resolve_def m)
    next
      case (Some r)
      then have "bestHandler = Some r" using assms True by (simp add: resolve_def m)
      then show ?thesis by simp
    qed
  next
    case False
    then show ?thesis using assms inv by (auto simp: resolve_def m)
  qed
qed

lemma abcApp_cmds:
  "cmds abcApp = [(''a'', recorder [] ''one''), (''a b'', recorder [] ''two''),
                  (''a b c'', recorder [] ''three'')]"
  by (simp add: abcApp_def Add_def New_def)

lemma Fields_examples:
  "Fields ''a'' = [''a'']" "Fields ''a b'' = [''a'', ''b'']" "Fields ''a b c'' = [''a'', ''b'', ''c'']"
  "Fields ''help'' = [''help'']" "Fields ''help topics'' = [''help'', ''topics'']"
  "Fields ''echo'' = [''echo'']" "Fields ''add'' = [''add'']" "Fields ''fail'' = [''fail'']"
  by code_simp+

lemma helpTopicsApp_cmds:
  "cmds helpTopicsApp = [(''help'', recorder [TString] ''one''), (''help topics'', recorder [] ''two'')]"
  "root helpTopicsApp = None" "Log (opts helpTopicsApp) = Stdout"
  by (simp_all add: helpTopicsApp_def Add_def New_def)

lemma helpTopicsApp_resolve:
  "resolve helpTopicsApp ''help'' [''help'', ''topics'']
     = Inr (''help topics'', Some (recorder [] ''two''), 2)"
  "resolve helpTopicsApp ''help'' [''help'', ''--bogus'']
     = Inr (''help'', Some (recorder [TString] ''one''), 1)"
  by (simp_all add: helpTopicsApp_cmds Fields_examples resolve_def)

lemma helpTopicsApp_Run:
  "RunArgs testEnv helpTopicsApp (''help'' # rest) world0
     = (Return None, Fprint Stdout (printHelp helpTopicsApp) world0)"
  by (simp add: RunArgs_def rootOrGlobalHelp_def helpTopicsApp_cmds)

text \<open>
  C2 as stated fails in two ways. When a longer registered path matches too: with \<^verbatim>\<open>a\<close>,
  \<^verbatim>\<open>a b\<close> and \<^verbatim>\<open>a b c\<close> registered, the input \<^verbatim>\<open>a b c\<close> resolves to the three-token path
  with matched length 3. And when the first token asks for help: with \<^verbatim>\<open>help\<close> and
  \<^verbatim>\<open>help topics\<close> registered, the run on \<^verbatim>\<open>help topics\<close> prints the global help and
  returns; no token is stripped and nothing is bound.
\<close>

theorem resolve_prefers_longer_path_counterexample:
  "(''a'', recorder [] ''one'') \<in> set (cmds abcApp) \<and> Fields ''a'' = [''a'']
   \<and> (''a b'', recorder [] ''two'') \<in> set (cmds abcApp) \<and> Fields ''a b'' = [''a'', ''b'']
   \<and> resolve abcApp ''a'' [''a'', ''b'', ''c''] = Inr (''a b c'', Some (recorder [] ''three''), 3)
   \<and> resolve abcApp ''a'' [''a'', ''b'', ''c''] \<noteq> Inr (''a b'', Some (recorder [] ''two''), 2)
   \<and> (''help'', recorder [TString] ''one'') \<in> set (cmds helpTopicsApp)
   \<and> Fields ''help'' = [''help'']
   \<and> (''help topics'', recorder [] ''two'') \<in> set (cmds helpTopicsApp)
   \<and> Fields ''help topics'' = [''help'', ''topics'']
   \<and> resolve helpTopicsApp ''help'' [''help'', ''topics'']
       = Inr (''help topics'', Some (recorder [] ''two''), 2)
   \<and> RunArgs testEnv helpTopicsApp [''help'', ''topics''] world0
       = (Return None, Fprint Stdout (printHelp helpTopicsApp) world0)"
  by (simp add: abcApp_cmds Fields_examples resolve_def helpTopicsApp_cmds helpTopicsApp_Run)

theorem resolve_selects_two_token_path_witness:
  "resolve abApp ''a'' [''a'', ''b'', ''c''] = Inr (''a b'', Some (recorder [] ''two''), 2)
   \<and> RunArgs testEnv abApp [''a'', ''b'', ''c''] world0 =
        handleError testEnv abApp (WrongNumberOfArguments ''a b'' 0 1) world0"
  using resolve_selects_two_token_path [of "''a''" "recorder [] ''one''" abApp "''a''"
      "''a b''" "recorder [] ''two''" "''b''" "[''c'']" testEnv world0]
  by (simp add: abApp_def Add_def New_def Fields_examples isHelpToken_def bindArgs_def
      bindPositionalMode_def HasPrefix_def recorder_def)

subsection \<open>Positional mode\<close>

lemma parsePositional_error:
  "parsePositional env bestName rawArgs ts i = Inl e \<Longrightarrow> \<exists>j e'. e = ParseArgFailed j bestName e'"
  by (induction ts arbitrary: i) (auto split: sum.splits)

lemma find_Some_set: "find P xs = Some x \<Longrightarrow> x \<in> set xs \<and> P x"
  by (induction xs) (auto split: if_splits)

lemma find_None_all: "(find P xs = None) = (\<forall>x\<in>set xs. \<not> P x)"
  by (induction xs) auto

lemma RunArgs_resolved:
  assumes "\<not> (first = ''-h'' \<or> first = ''--help'' \<or> first = ''help'')"
    and "resolve a first (first # rest) = Inr (bestName, Some h, bestLen)"
    and "\<not> (length (drop bestLen (first # rest)) > 0 \<and> isHelpToken (hd (drop bestLen (first # rest))))"
  shows "RunArgs env a (first # rest) w =
           (case bindArgs env bestName h (drop bestLen (first # rest)) of
              Inl err \<Rightarrow> handleError env a err w
            | Inr parsed \<Rightarrow> invoke h parsed w)"
  using assms by (auto simp add: RunArgs_def Let_def)

text \<open>
  C3, as amended. Let the first token of the input not be \<^verbatim>\<open>-h\<close>, \<^verbatim>\<open>--help\<close> or \<^verbatim>\<open>help\<close>
  (for which \<^verbatim>\<open>Run\<close> prints help before it resolves), let the command be resolved to a
  handler with no struct parameter, and let the first remaining token not be \<^verbatim>\<open>-h\<close> or
  \<^verbatim>\<open>--help\<close> (which shows the command's help instead). If some remaining token begins with \<^verbatim>\<open>--\<close>, the run fails with the
  unknown-option error for the first such token, whatever the number of tokens; if none
  does and the number of tokens differs from the number of parameters, the run fails with
  the wrong-number-of-arguments error; and binding gives that error in no other case.
\<close>

theorem positional_mode_rejects_long_options:
  assumes "\<not> (first = ''-h'' \<or> first = ''--help'' \<or> first = ''help'')"
    and "resolve a first (first # rest) = Inr (bestName, Some h, bestLen)"
    and "rawArgs = drop bestLen (first # rest)"
    and "\<not> (length rawArgs > 0 \<and> isHelpToken (hd rawArgs))"
    and "\<not> list_ex isStructParam (targs h)"
  shows "((\<exists>arg \<in> set rawArgs. HasPrefix arg ''--'') \<longrightarrow>
            (\<exists>tok. find (\<lambda>arg. HasPrefix arg ''--'') rawArgs = Some tok
                   \<and> RunArgs env a (first # rest) w = handleError env a (UnknownOption tok) w))
       \<and> ((\<forall>arg \<in> set rawArgs. \<not> HasPrefix arg ''--'') \<and> length rawArgs \<noteq> length (targs h) \<longrightarrow>
            RunArgs env a (first # rest) w =
              handleError env a
                (WrongNumberOfArguments bestName (length (targs h)) (length rawArgs)) w)
       \<and> (bindArgs env bestName h rawArgs = Inl (WrongNumberOfArguments n want got) \<longrightarrow>
            (\<forall>arg \<in> set rawArgs. \<not> HasPrefix arg ''--'') \<and> length rawArgs \<noteq> length (targs h))"
proof -
  have run: "RunArgs env a (first # rest) w =
           (case bindArgs env bestName h rawArgs of
              Inl err \<Rightarrow> handleError env a err w
            | Inr parsed \<Rightarrow> invoke h parsed w)"
    using assms(1,2,4) unfolding assms(3) by (rule RunArgs_resolved)
  have bind: "bindArgs env bestName h rawArgs = bindPositionalMode env bestName rawArgs (targs h)"
    using assms(5) by (simp add: bindArgs_def)
  have A: "(\<exists>arg \<in> set rawArgs. HasPrefix arg ''--'') \<longrightarrow>
            (\<exists>tok. find (\<lambda>arg. HasPrefix arg ''--'') rawArgs = Some tok
                   \<and> RunArgs env a (first # rest) w = handleError env a (UnknownOption tok) w)"
  proof
    assume "\<exists>arg \<in> set rawArgs. HasPrefix arg ''--''"
    then have "find (\<lambda>arg. HasPrefix arg ''--'') rawArgs \<noteq> None"
      by (simp add: find_None_all)
    then obtain tok where f: "find (\<lambda>arg. HasPrefix arg ''--'') rawArgs = Some tok" by blast
    then have "bindArgs env bestName h rawArgs = Inl (UnknownOption tok)"
      by (simp add: bind bindPositionalMode_def)
    then show "\<exists>tok. find (\<lambda>arg. HasPrefix arg ''--'') rawArgs = Some tok
                   \<and> RunArgs env a (first # rest) w = handleError env a (UnknownOption tok) w"
      using f run by simp
  qed
  have B: "(\<forall>arg \<in> set rawArgs. \<not> HasPrefix arg ''--'') \<and> length rawArgs \<noteq> length (targs h) \<longrightarrow>
            RunArgs env a (first # rest) w =
              handleError env a
                (WrongNumberOfArguments bestName (length (targs h)) (length rawArgs)) w"
  proof
    assume h: "(\<forall>arg \<in> set rawArgs. \<not> HasPrefix arg ''--'') \<and> length rawArgs \<noteq> length (targs h)"
    then have "find (\<lambda>arg. HasPrefix arg ''--'') rawArgs = None"
      by (simp add: find_None_all)
    then have "bindArgs env bestName h rawArgs =
                 Inl (WrongNumberOfArguments bestName (length (targs h)) (length rawArgs))"
      using h by (simp add: bind bindPositionalMode_def)
    then show "RunArgs env a (first # rest) w =
              handleError env a
                (WrongNumberOfArguments bestName (length (targs h)) (length rawArgs)) w"
      using run by simp
  qed
  have C: "bindArgs env bestName h rawArgs = Inl (WrongNumberOfArguments n want got) \<longrightarrow>
            (\<forall>arg \<in> set rawArgs. \<not> HasPrefix arg ''--'') \<and> length rawArgs \<noteq> length (targs h)"
  proof
    assume e: "bindArgs env bestName h rawArgs = Inl (WrongNumberOfArguments n want got)"
    show "(\<forall>arg \<in> set rawArgs. \<not> HasPrefix arg ''--'') \<and> length rawArgs \<noteq> length (targs h)"
    proof (cases "find (\<lambda>arg. HasPrefix arg ''--'') rawArgs")
      case (Some tok)
      then show ?thesis using e by (simp add: bind bindPositionalMode_def)
    next
      case None
      then have no: "\<forall>arg \<in> set rawArgs. \<not> HasPrefix arg ''--''"
        by (simp add: find_None_all)
      have "length rawArgs \<noteq> length (targs h)"
      proof
        assume eq: "length rawArgs = length (targs h)"
        then have "parsePositional env bestName rawArgs (targs h) 0
                     = Inl (WrongNumberOfArguments n want got)"
          using e None by (simp add: bind bindPositionalMode_def)
        then show False using parsePositional_error by fastforce
      qed
      then show ?thesis using no by simp
    qed
  qed
  from A B C show ?thesis by blast
qed

lemma echoApp_resolve:
  "resolve echoApp ''echo'' (''echo'' # rest) = Inr (''echo'', Some (recorder [TString] []), 1)"
  by (simp add: echoApp_def Add_def New_def resolve_def Fields_examples)

lemma echoApp_help:
  "printCommandHelp testEnv echoApp ''echo'' (recorder [TString] [])
     = Some ''Usage: echo <args...>\<newline>\<newline>Arguments:\<newline>  [0] arg0 <string>\<newline>\<newline>Options:\<newline>  -h|--help               Show this help\<newline>''"
  by code_simp

text \<open>
  C3 as stated fails where help is asked for. For a handler \<^verbatim>\<open>func(string)\<close> registered
  as \<^verbatim>\<open>echo\<close>, the remaining token of \<^verbatim>\<open>echo --help\<close> begins with \<^verbatim>\<open>--\<close>, and the run
  prints the command's help and returns nil. For a handler \<^verbatim>\<open>func(string)\<close> registered as
  \<^verbatim>\<open>help\<close>, the remaining token of \<^verbatim>\<open>help --bogus\<close> begins with \<^verbatim>\<open>--\<close>, and the run
  prints the global help and returns nil.
\<close>

theorem positional_mode_help_counterexample:
  "\<not> list_ex isStructParam (targs (recorder [TString] []))
   \<and> resolve echoApp ''echo'' [''echo'', ''--help''] = Inr (''echo'', Some (recorder [TString] []), 1)
   \<and> drop 1 [''echo'', ''--help''] = [''--help'']
   \<and> HasPrefix ''--help'' ''--''
   \<and> length [''--help''] = length (targs (recorder [TString] []))
   \<and> RunArgs testEnv echoApp [''echo'', ''--help''] world0
       = (Return None,
          Fprint Stdout
            ''Usage: echo <args...>\<newline>\<newline>Arguments:\<newline>  [0] arg0 <string>\<newline>\<newline>Options:\<newline>  -h|--help               Show this help\<newline>''
            world0)
   \<and> \<not> list_ex isStructParam (targs (recorder [TString] ''one''))
   \<and> resolve helpTopicsApp ''help'' [''help'', ''--bogus'']
       = Inr (''help'', Some (recorder [TString] ''one''), 1)
   \<and> drop 1 [''help'', ''--bogus''] = [''--bogus'']
   \<and> HasPrefix ''--bogus'' ''--''
   \<and> RunArgs testEnv helpTopicsApp [''help'', ''--bogus''] world0
       = (Return None, Fprint Stdout (printHelp helpTopicsApp) world0)"
  by (simp add: echoApp_resolve helpTopicsApp_resolve RunArgs_def isHelpToken_def
        HasPrefix_def showCommandHelp_def echoApp_help rootOrGlobalHelp_def helpTopicsApp_cmds)
     (simp add: recorder_def isStructParam_def echoApp_def Add_def New_def)

theorem positional_mode_rejects_long_options_witness:
  "RunArgs testEnv echoApp [''echo'', ''--bogus''] world0
     = handleError testEnv echoApp (UnknownOption ''--bogus'') world0
   \<and> RunArgs testEnv echoApp [''echo''] world0
     = handleError testEnv echoApp (WrongNumberOfArguments ''echo'' 1 0) world0"
  using positional_mode_rejects_long_options [of "''echo''" echoApp "[''--bogus'']" "''echo''"
      "recorder [TString] []" 1 "[''--bogus'']" testEnv world0]
    positional_mode_rejects_long_options [of "''echo''" echoApp "[]" "''echo''"
      "recorder [TString] []" 1 "[]" testEnv world0]
  by (simp add: echoApp_resolve isHelpToken_def HasPrefix_def)
     (simp add: recorder_def isStructParam_def)

subsection \<open>Failures before the call\<close>

lemma handleError_world:
  "handleError env a err w =
     (if ExitOnError (opts a)
      then (Exit 1, w\<lparr>written := (written w)(LogError (opts a) :=
                          written w (LogError (opts a)) @ Error env err @ [CHR 0x0A])\<rparr>)
      else (Return (Some err), w))"
  by (simp add: handleError_def Fprint_def ln_def)

lemma handleError_usr: "usr (snd (handleError env a err w)) = usr w"
  by (simp add: handleError_world)

lemma handleError_written_other:
  "wr \<noteq> LogError (opts a) \<Longrightarrow> written (snd (handleError env a err w)) wr = written w wr"
  by (simp add: handleError_world)

lemma RunArgs_unresolved:
  assumes "\<not> (first = ''-h'' \<or> first = ''--help'' \<or> first = ''help'')"
    and "resolve a first (first # rest) = Inl err"
  shows "RunArgs env a (first # rest) w = handleError env a err w"
  using assms by (auto simp add: RunArgs_def)

text \<open>
  C9, as amended. When resolution fails, or the arguments of the resolved handler fail to
  bind (every coercion and every step of the struct binder is part of binding), the run
  is the result of \<^verbatim>\<open>handleError\<close> on that error, in which no handler function occurs:
  the error is returned, or with \<^verbatim>\<open>ExitOnError\<close> its message is written and the process
  exits with status 1; the part of the world that only handlers change is as before, and
  nothing is written but that message.
\<close>

theorem failed_run_never_invokes_handler:
  assumes "\<not> (first = ''-h'' \<or> first = ''--help'' \<or> first = ''help'')"
    and "resolve a first (first # rest) = Inl err
         \<or> (\<exists>bestName h bestLen.
               resolve a first (first # rest) = Inr (bestName, Some h, bestLen)
               \<and> \<not> (length (drop bestLen (first # rest)) > 0
                       \<and> isHelpToken (hd (drop bestLen (first # rest))))
               \<and> bindArgs env bestName h (drop bestLen (first # rest)) = Inl err)"
  shows "RunArgs env a (first # rest) w = handleError env a err w
         \<and> fst (RunArgs env a (first # rest) w)
              = (if ExitOnError (opts a) then Exit 1 else Return (Some err))
         \<and> usr (snd (RunArgs env a (first # rest) w)) = usr w
         \<and> written (snd (RunArgs env a (first # rest) w))
              = (if ExitOnError (opts a)
                 then (written w)(LogError (opts a) :=
                        written w (LogError (opts a)) @ Error env err @ [CHR 0x0A])
                 else written w)"
proof -
  have run: "RunArgs env a (first # rest) w = handleError env a err w"
    using assms(2)
  proof
    assume "resolve a first (first # rest) = Inl err"
    with assms(1) show ?thesis by (rule RunArgs_unresolved)
  next
    assume "\<exists>bestName h bestLen.
               resolve a first (first # rest) = Inr (bestName, Some h, bestLen)
               \<and> \<not> (length (drop bestLen (first # rest)) > 0
                       \<and> isHelpToken (hd (drop bestLen (first # rest))))
               \<and> bindArgs env bestName h (drop bestLen (first # rest)) = Inl err"
    then obtain bestName h bestLen where
      r: "resolve a first (first # rest) = Inr (bestName, Some h, bestLen)"
      and nh: "\<not> (length (drop bestLen (first # rest)) > 0
                       \<and> isHelpToken (hd (drop bestLen (first # rest))))"
      and b: "bindArgs env bestName h (drop bestLen (first # rest)) = Inl err"
      by blast
    show ?thesis
      using RunArgs_resolved [OF assms(1) r nh, of env w] b by simp
  qed
  show ?thesis
    unfolding run by (simp add: handleError_world)
qed

lemma failApp_resolve_zzz: "resolve failApp ''zzz'' [''zzz''] = Inl (UnknownCommand ''zzz'')"
  by (simp add: failApp_def Default_def New_def Add_def resolve_def Fields_examples)

text \<open>
  C9 as stated, with the error returned by the run, fails under \<^verbatim>\<open>ExitOnError\<close>: on the
  default application an unknown command is not returned to the caller; its message is
  written to the error writer and the process exits with status 1.
\<close>

theorem failed_run_exits_counterexample:
  "resolve failApp ''zzz'' [''zzz''] = Inl (UnknownCommand ''zzz'')
   \<and> ExitOnError (opts failApp)
   \<and> Run testEnv failApp (Some [''zzz'']) world0
       = (Exit 1, Fprint Stderr (ln ''unknown command: zzz'') world0)
   \<and> fst (Run testEnv failApp (Some [''zzz'']) world0) \<noteq> Return (Some (UnknownCommand ''zzz''))"
  by (simp add: failApp_resolve_zzz Run_def RunArgs_def handleError_def)
     (simp add: failApp_def Default_def New_def Add_def)

lemma Atoi_x: "Atoi testEnv ''x'' = Inl (NumError ''Atoi'' ''x'' ErrSyntax)"
  by code_simp

lemma addApp_resolve:
  "resolve addApp ''add'' (''add'' # rest) = Inr (''add'', Some (recorder [TInt, TInt] []), 1)"
  by (simp add: addApp_def Add_def New_def resolve_def Fields_examples)

lemma addApp_bind:
  "bindArgs testEnv ''add'' (recorder [TInt, TInt] []) [''2'', ''x'']
     = Inl (ParseArgFailed 2 ''add'' (NumError ''Atoi'' ''x'' ErrSyntax))"
  by code_simp

theorem failed_run_never_invokes_handler_witness:
  "RunArgs testEnv addApp [''add'', ''2'', ''x''] world0
     = (Return (Some (ParseArgFailed 2 ''add'' (NumError ''Atoi'' ''x'' ErrSyntax))), world0)
   \<and> usr (snd (RunArgs testEnv addApp [''add'', ''2'', ''x''] world0)) = usr world0
   \<and> RunArgs testEnv addApp [''zzz''] world0 = (Return (Some (UnknownCommand ''zzz'')), world0)"
  using failed_run_never_invokes_handler [of "''add''" addApp "[''2'', ''x'']"
      "ParseArgFailed 2 ''add'' (NumError ''Atoi'' ''x'' ErrSyntax)" testEnv world0]
    failed_run_never_invokes_handler [of "''zzz''" addApp "[]" "UnknownCommand ''zzz''"
      testEnv world0]
  by (simp add: addApp_resolve addApp_bind isHelpToken_def handleError_def)
     (simp add: addApp_def Add_def New_def resolve_def Fields_examples)

subsection \<open>Help requests\<close>

lemma ln_not_Nil: "ln s \<noteq> []"
  by (simp add: ln_def)

text \<open>
  The Arguments loop below the greatest \<^verbatim>\<open>int\<close>: it ends, with one line for each index
  from \<open>i\<close> to \<open>maxPos\<close>.
\<close>

lemma argumentLines_returns:
  assumes "maxPos < maxInt env"
  shows "argumentLines env posMap maxPos i out =
           Some (out @ concat (map (\<lambda>i. ln (''  ['' @ Itoa i @ ''] '' @
                    (case map_of posMap i of
                       Some n \<Rightarrow> if n = [] then ''arg'' @ Itoa i else n
                     | None \<Rightarrow> ''arg'' @ Itoa i))) [i .. maxPos]))"
  using assms
proof (induction "nat (maxPos + 1 - i)" arbitrary: i out)
  case 0
  then have "\<not> i \<le> maxPos" by simp
  then show ?case by (subst argumentLines.simps) simp
next
  case (Suc k)
  then have le: "i \<le> maxPos" by simp
  then have inc: "incr env i = i + 1" using Suc.prems by (simp add: incr_def)
  have k: "k = nat (maxPos + 1 - (i + 1))" using Suc(2) by simp
  have up: "[i .. maxPos] = i # [i + 1 .. maxPos]" using le by (simp add: upto_rec1)
  show ?case
    by (subst argumentLines.simps) (simp add: le inc Suc(1) [OF k Suc.prems] up)
qed

text \<open>At the greatest \<^verbatim>\<open>int\<close> the counter wraps and the loop does not end.\<close>

lemma argumentLines_diverges:
  assumes "maxInt env \<le> maxPos" and "i \<le> maxInt env"
  shows "argumentLines env posMap maxPos i out = None"
proof (rule ccontr)
  assume "argumentLines env posMap maxPos i out \<noteq> None"
  then obtain y where y: "argumentLines env posMap maxPos i out = Some y" by blast
  have step: "\<not> (maxInt env \<le> maxPos \<and> i \<le> maxInt env)"
    if ih: "\<And>env posMap maxPos i out y. f env posMap maxPos i out = Some y
              \<Longrightarrow> \<not> (maxInt env \<le> maxPos \<and> i \<le> maxInt env)"
      and body: "(if i \<le> maxPos
            then f env posMap maxPos (incr env i)
                   (out @ ln (''  ['' @ Itoa i @ ''] '' @
                      (case map_of posMap i of
                         Some n \<Rightarrow> if n = [] then ''arg'' @ Itoa i else n
                       | None \<Rightarrow> ''arg'' @ Itoa i)))
            else Some out) = Some y"
    for f env posMap maxPos i out y
  proof
    assume h: "maxInt env \<le> maxPos \<and> i \<le> maxInt env"
    then have "i \<le> maxPos" by simp
    with body have "f env posMap maxPos (incr env i)
           (out @ ln (''  ['' @ Itoa i @ ''] '' @
                      (case map_of posMap i of
                         Some n \<Rightarrow> if n = [] then ''arg'' @ Itoa i else n
                       | None \<Rightarrow> ''arg'' @ Itoa i))) = Some y" by simp
    then have "\<not> (maxInt env \<le> maxPos \<and> incr env i \<le> maxInt env)" by (rule ih)
    moreover have "incr env i \<le> maxInt env"
      using h minInt_neg [of env] maxInt_nonneg [of env] by (auto simp: incr_def)
    ultimately show False using h by simp
  qed
  have "\<not> (maxInt env \<le> maxPos \<and> i \<le> maxInt env)"
    by (rule argumentLines.raw_induct
          [where P = "\<lambda>env posMap maxPos i out y. \<not> (maxInt env \<le> maxPos \<and> i \<le> maxInt env)",
           OF step y])
  with assms show False by simp
qed

lemma printCommandHelp_returns:
  assumes "snd (collectPositional env (structFields (targs h)) ([], - 1)) < maxInt env"
  shows "\<exists>text. printCommandHelp env a name h = Some text"
proof -
  obtain posMap maxPos where
    c: "collectPositional env (structFields (targs h)) ([], - 1) = (posMap, maxPos)"
    by (cases "collectPositional env (structFields (targs h)) ([], - 1)")
  have "maxPos < maxInt env" using assms c by simp
  then have "\<exists>arguments.
      (if maxPos \<ge> 0 then argumentLines env posMap maxPos 0 [] else Some []) = Some arguments"
    by (simp add: argumentLines_returns)
  then obtain arguments where
    "(if maxPos \<ge> 0 then argumentLines env posMap maxPos 0 [] else Some []) = Some arguments"
    by blast
  then show ?thesis
    by (simp add: printCommandHelp_def Let_def c)
qed

lemma printCommandHelp_diverges:
  assumes "list_ex isStructParam (targs h)"
    and "snd (collectPositional env (structFields (targs h)) ([], - 1)) = maxInt env"
  shows "printCommandHelp env a name h = None"
proof -
  obtain posMap maxPos where
    c: "collectPositional env (structFields (targs h)) ([], - 1) = (posMap, maxPos)"
    by (cases "collectPositional env (structFields (targs h)) ([], - 1)")
  have m: "maxPos = maxInt env" using assms(2) c by simp
  have "argumentLines env posMap maxPos 0 [] = None"
    using maxInt_nonneg [of env] by (simp add: m argumentLines_diverges)
  then have "(if maxPos \<ge> 0 then argumentLines env posMap maxPos 0 [] else Some []) = None"
    using maxInt_nonneg [of env] by (simp add: m)
  then show ?thesis
    using assms(1) by (simp add: printCommandHelp_def Let_def c)
qed

text \<open>
  A help request: the tokens of a run (given, or taken from \<^verbatim>\<open>os.Args[1:]\<close>) are empty or
  begin with \<^verbatim>\<open>-h\<close>, \<^verbatim>\<open>--help\<close> or \<^verbatim>\<open>help\<close>. No command is matched and no handler is
  called. When the root handler, if there is one, has no positional index at the greatest
  \<^verbatim>\<open>int\<close>, the run returns nil and has written to the normal writer the command help of
  the root handler, or the global help when there is no root handler.
\<close>

lemma help_request_returns_help:
  assumes "argsOpt = Some args \<or> (\<exists>arg0. argsOpt = None \<and> osArgs env = arg0 # args)"
    and "args = [] \<or> (\<exists>first rest. args = first # rest
                          \<and> (first = ''-h'' \<or> first = ''--help'' \<or> first = ''help''))"
    and "\<forall>r. root a = Some r \<longrightarrow>
           snd (collectPositional env (structFields (targs r)) ([], - 1)) < maxInt env"
  shows "\<exists>text. (case root a of Some r \<Rightarrow> printCommandHelp env a [] r = Some text
                              | None \<Rightarrow> printHelp a = text)
               \<and> Run env a argsOpt w = (Return None, Fprint (Log (opts a)) text w)
               \<and> usr (snd (Run env a argsOpt w)) = usr w"
proof -
  have run: "Run env a argsOpt w = RunArgs env a args w"
    using assms(1) by (auto simp: Run_def)
  have rg: "RunArgs env a args w = rootOrGlobalHelp env a w"
    using assms(2) by (auto simp: RunArgs_def)
  show ?thesis
  proof (cases "root a")
    case None
    then show ?thesis
      using run rg by (simp add: rootOrGlobalHelp_def Fprint_def)
  next
    case (Some r)
    then have "snd (collectPositional env (structFields (targs r)) ([], - 1)) < maxInt env"
      using assms(3) by simp
    then obtain t where "printCommandHelp env a [] r = Some t"
      using printCommandHelp_returns by blast
    then show ?thesis
      using run rg Some by (simp add: rootOrGlobalHelp_def showCommandHelp_def Fprint_def)
  qed
qed

text \<open>
  When the root handler has a positional index at the greatest \<^verbatim>\<open>int\<close>, a help request
  does not return.
\<close>

lemma help_request_never_returns:
  assumes "argsOpt = Some args \<or> (\<exists>arg0. argsOpt = None \<and> osArgs env = arg0 # args)"
    and "args = [] \<or> (\<exists>first rest. args = first # rest
                          \<and> (first = ''-h'' \<or> first = ''--help'' \<or> first = ''help''))"
    and "root a = Some r" and "list_ex isStructParam (targs r)"
    and "snd (collectPositional env (structFields (targs r)) ([], - 1)) = maxInt env"
  shows "fst (Run env a argsOpt w) = NoReturn"
proof -
  have run: "Run env a argsOpt w = RunArgs env a args w"
    using assms(1) by (auto simp: Run_def)
  have rg: "RunArgs env a args w = rootOrGlobalHelp env a w"
    using assms(2) by (auto simp: RunArgs_def)
  have "printCommandHelp env a [] r = None"
    using assms(4,5) by (rule printCommandHelp_diverges)
  then show ?thesis
    using run rg assms(3) by (simp add: rootOrGlobalHelp_def showCommandHelp_def)
qed

text \<open>The help texts of three applications, as written.\<close>

lemma addApp_help:
  "printHelp addApp =
     ''Usage: [options...]\<newline>\<newline>Commands:\<newline>  add\<newline>\<newline>Options:\<newline>  -h|--help               Show this help\<newline>''"
  by code_simp

lemma rootApp_help:
  "printCommandHelp testEnv rootApp [] (recorder [TString] ''the root'') =
     Some ''the root\<newline>\<newline>Usage: cmd <args...>\<newline>\<newline>Arguments:\<newline>  [0] arg0 <string>\<newline>\<newline>Options:\<newline>  -h|--help               Show this help\<newline>''"
  by code_simp

lemma createRootApp_help:
  "printCommandHelp testEnv createRootApp [] (recorder [CreateTextArgs] ''Create a text file'') =
     Some ''Create a text file\<newline>\<newline>Usage: cmd <args...> [options...]\<newline>\<newline>\<newline>Arguments:\<newline>  [0] input\<newline>\<newline>Commands:\<newline>\<newline>Options:\<newline>  -h|--help               Show this help\<newline>  -o|--out <string>    \<newline>  --usemarkdown    \<newline>''"
  by code_simp

lemma example_roots:
  "root addApp = None" "Log (opts addApp) = Stdout"
  "root rootApp = Some (recorder [TString] ''the root'')" "Log (opts rootApp) = Stdout"
  "root createRootApp = Some (recorder [CreateTextArgs] ''Create a text file'')"
  "Log (opts createRootApp) = Stdout"
  "root farRootApp = Some (recorder [FarArgs] [])"
  "osArgs testEnv = [''cmd'']"
  by (simp_all add: addApp_def rootApp_def createRootApp_def farRootApp_def Add_def New_def
      testEnv_def)

lemma help_request_examples:
  "Run testEnv addApp (Some []) world0 =
     (Return None,
      Fprint Stdout ''Usage: [options...]\<newline>\<newline>Commands:\<newline>  add\<newline>\<newline>Options:\<newline>  -h|--help               Show this help\<newline>'' world0)"
  "Run testEnv addApp None world0 =
     (Return None,
      Fprint Stdout ''Usage: [options...]\<newline>\<newline>Commands:\<newline>  add\<newline>\<newline>Options:\<newline>  -h|--help               Show this help\<newline>'' world0)"
  "Run testEnv rootApp (Some [''help'', ''add'']) world0 =
     (Return None,
      Fprint Stdout ''the root\<newline>\<newline>Usage: cmd <args...>\<newline>\<newline>Arguments:\<newline>  [0] arg0 <string>\<newline>\<newline>Options:\<newline>  -h|--help               Show this help\<newline>'' world0)"
  "Run testEnv createRootApp (Some [''--help'']) world0 =
     (Return None,
      Fprint Stdout ''Create a text file\<newline>\<newline>Usage: cmd <args...> [options...]\<newline>\<newline>\<newline>Arguments:\<newline>  [0] input\<newline>\<newline>Commands:\<newline>\<newline>Options:\<newline>  -h|--help               Show this help\<newline>  -o|--out <string>    \<newline>  --usemarkdown    \<newline>'' world0)"
  by (simp_all add: Run_def RunArgs_def rootOrGlobalHelp_def showCommandHelp_def example_roots
      addApp_help rootApp_help createRootApp_help)

lemma FarArgs_positional:
  "collectPositional testEnv (structFields [FarArgs]) ([], - 1)
     = ([(9223372036854775807, ''input'')], 9223372036854775807)"
  by code_simp

text \<open>
  C6. A run with no tokens, or with a first token \<^verbatim>\<open>-h\<close>, \<^verbatim>\<open>--help\<close> or \<^verbatim>\<open>help\<close>, is to
  return nil after it has written the help of the root handler. For the root handler
  \<^verbatim>\<open>func(FarArgs)\<close>, where \<^verbatim>\<open>FarArgs\<close> has the one field
  \<^verbatim>\<open>Input string `arg:"9223372036854775807"`\<close>, the printer finds \<^verbatim>\<open>maxPos\<close> to be the
  greatest \<^verbatim>\<open>int\<close>; in its loop \<^verbatim>\<open>for i := 0; i <= maxPos; i++\<close> the condition never fails,
  \<^verbatim>\<open>i++\<close> wraps to the least \<^verbatim>\<open>int\<close>, and the printer writes Arguments lines without end:
  the run does not return.
\<close>

theorem help_request_for_greatest_position_never_returns:
  "collectPositional testEnv (structFields [FarArgs]) ([], - 1)
     = ([(9223372036854775807, ''input'')], 9223372036854775807)
   \<and> maxInt testEnv = 9223372036854775807
   \<and> argumentLines testEnv [(9223372036854775807, ''input'')] 9223372036854775807 0 [] = None
   \<and> printCommandHelp testEnv farRootApp [] (recorder [FarArgs] []) = None
   \<and> fst (Run testEnv farRootApp (Some []) world0) = NoReturn
   \<and> fst (Run testEnv farRootApp (Some [''--help'']) world0) = NoReturn
   \<and> fst (Run testEnv farRootApp (Some [''help'']) world0) = NoReturn
   \<and> fst (Run testEnv farRootApp (Some [''-h'']) world0) = NoReturn"
proof -
  have m: "maxInt testEnv = 9223372036854775807" by (rule maxInt_testEnv(1))
  have s: "list_ex isStructParam (targs (recorder [FarArgs] []))"
    by (simp add: recorder_def FarArgs_def isStructParam_def)
  have c: "snd (collectPositional testEnv (structFields (targs (recorder [FarArgs] [])))
             ([], - 1)) = maxInt testEnv"
    by (simp add: recorder_def FarArgs_positional m)
  have loop: "argumentLines testEnv [(9223372036854775807, ''input'')] 9223372036854775807 0 []
                = None"
    by (rule argumentLines_diverges) (simp_all add: m)
  have p: "printCommandHelp testEnv farRootApp [] (recorder [FarArgs] []) = None"
    using s c by (rule printCommandHelp_diverges)
  have r: "fst (Run testEnv farRootApp (Some []) world0) = NoReturn"
    "fst (Run testEnv farRootApp (Some [''--help'']) world0) = NoReturn"
    "fst (Run testEnv farRootApp (Some [''help'']) world0) = NoReturn"
    "fst (Run testEnv farRootApp (Some [''-h'']) world0) = NoReturn"
    using p
    by (simp_all add: Run_def RunArgs_def rootOrGlobalHelp_def showCommandHelp_def example_roots)
  show ?thesis
    using FarArgs_positional m loop p r by (intro conjI)
qed

subsection \<open>The positional phase of the struct binder\<close>

lemma positionalLoop_bindPositions:
  "positionalLoop env tys posFields raw ps sv consumed =
     bindPositions env tys raw
       (concat (map (\<lambda>p. case map_of posFields p of Some fi \<Rightarrow> [(p, fi)] | None \<Rightarrow> []) ps))
       sv consumed"
  by (induction ps arbitrary: sv consumed) (auto split: option.splits sum.splits)

lemma Max_insert_max:
  assumes "finite S"
  shows "Max (insert (max k m) S) = Max (insert m (insert k S))"
proof (cases "S = {}")
  case True
  then show ?thesis by (simp add: max.commute)
next
  case False
  then show ?thesis using assms by (simp add: max.assoc max.commute max.left_commute)
qed

lemma maxPosition_Max:
  "maxPosition posFields m = Max (insert m (set (map fst posFields)))"
proof (induction posFields arbitrary: m)
  case Nil
  then show ?case by simp
next
  case (Cons kf rest)
  obtain k fi where kf: "kf = (k, fi)" by (cases kf)
  have "maxPosition (kf # rest) m = maxPosition rest (max k m)"
    by (simp add: kf max_def)
  also have "\<dots> = Max (insert (max k m) (set (map fst rest)))"
    by (rule Cons.IH)
  also have "\<dots> = Max (insert m (insert k (set (map fst rest))))"
    by (rule Max_insert_max) simp
  finally show ?case by (simp add: kf)
qed

lemma upto_max_neg: "[0 .. max (- 1) (M::int)] = [0 .. M]"
  by (cases "M \<ge> - 1") (auto simp: max_def)

lemma maxPosition_below:
  assumes "\<forall>(p, fi) \<in> set posFields. p < maxInt env"
  shows "maxPosition posFields (- 1) < maxInt env"
proof -
  have "\<forall>k \<in> insert (- 1) (set (map fst posFields)). k < maxInt env"
    using assms maxInt_nonneg [of env] by auto
  then show ?thesis
    unfolding maxPosition_Max by (subst Max_less_iff) simp_all
qed

lemma positionalPhase_spec:
  assumes "posFields \<noteq> []" and "\<forall>(p, fi) \<in> set posFields. p < maxInt env"
  shows "positionalPhase env tys posFields raw sv =
           bindPositions env tys raw (registeredPositions posFields) sv 0"
proof -
  have ne: "set (map fst posFields) \<noteq> {}" using assms(1) by simp
  have below: "maxPosition posFields (- 1) < maxInt env"
    using assms(2) by (rule maxPosition_below)
  have "maxPosition posFields (- 1) = max (- 1) (Max (set (map fst posFields)))"
    using ne by (simp add: maxPosition_Max del: set_map)
  then have "[0 .. maxPosition posFields (- 1)] = [0 .. Max (set (map fst posFields))]"
    by (simp only: upto_max_neg)
  then show ?thesis
    using assms(1) below
    by (simp add: positionalPhase_def visited_def positionalLoop_bindPositions
        registeredPositions_def del: set_map)
qed

lemma bindPositions_count:
  "bindPositions env tys raw regs sv cursor = Inr (sv', c) \<Longrightarrow> c = cursor + length regs"
proof (induction regs arbitrary: sv cursor)
  case Nil
  then show ?case by simp
next
  case (Cons r regs)
  obtain p fi where r: "r = (p, fi)" by (cases r)
  from Cons.prems obtain sv1 where
    "bindPositions env tys raw regs sv1 (cursor + 1) = Inr (sv', c)"
    by (auto simp: r split: if_splits sum.splits)
  then have "c = cursor + 1 + length regs" by (rule Cons.IH)
  then show ?case by simp
qed

lemma bindPositions_short:
  "cursor \<le> length raw \<Longrightarrow> length raw < cursor + length regs
     \<Longrightarrow> \<exists>e. bindPositions env tys raw regs sv cursor = Inl e
           \<and> (e = NotEnoughPositional (fst (regs ! (length raw - cursor)))
                \<or> (\<exists>p e'. e = ParsePositionalFailed p e'))"
proof (induction regs arbitrary: sv cursor)
  case Nil
  then show ?case by simp
next
  case (Cons r regs)
  obtain p fi where r: "r = (p, fi)" by (cases r)
  show ?case
  proof (cases "cursor < length raw")
    case False
    then have "length raw - cursor = 0" by simp
    then show ?thesis using False by (simp add: r)
  next
    case True
    show ?thesis
    proof (cases "parseAndSetField env tys sv fi (raw ! cursor)")
      case (Inl e)
      then show ?thesis using True by (simp add: r)
    next
      case (Inr sv1)
      have "cursor + 1 \<le> length raw" using True by simp
      moreover have "length raw < cursor + 1 + length regs" using Cons.prems by simp
      ultimately have "\<exists>e. bindPositions env tys raw regs sv1 (cursor + 1) = Inl e
           \<and> (e = NotEnoughPositional (fst (regs ! (length raw - (cursor + 1))))
                \<or> (\<exists>p e'. e = ParsePositionalFailed p e'))"
        by (rule Cons.IH)
      moreover have "(r # regs) ! (length raw - cursor) = regs ! (length raw - (cursor + 1))"
        using True by (simp add: nth_Cons')
      ultimately show ?thesis using True Inr by (simp add: r)
    qed
  qed
qed

lemma registeredPositions_fst:
  "map fst (registeredPositions posFields)
     = filter (\<lambda>p. map_of posFields p \<noteq> None) [0 .. Max (set (map fst posFields))]"
proof -
  have "map fst (concat (map (\<lambda>p. case map_of posFields p of Some fi \<Rightarrow> [(p, fi)] | None \<Rightarrow> []) ps))
          = filter (\<lambda>p. map_of posFields p \<noteq> None) ps" for ps
    by (induction ps) (auto split: option.splits)
  then show ?thesis by (simp add: registeredPositions_def del: set_map)
qed

lemma sorted_upto_int: "sorted [i .. (j::int)]"
  by (simp add: sorted_upto)

text \<open>
  For field maps with at least one positional index, every index below the greatest
  \<^verbatim>\<open>int\<close>, the positional phase of the code (find the greatest index, visit 0 up to it,
  skip the positions with no field) is the
  specification's binder over the registered positions: they are the positions from 0 to
  the greatest declared index that have a field, in ascending order; each takes exactly
  one token from the cursor and coerces it into its field, so a successful phase has
  consumed as many tokens as there are registered positions and a gap takes none; with
  fewer tokens than registered positions the phase fails: by the
  not-enough-positional-arguments error of the first registered position left without a
  token, unless a token before it could not be coerced.
\<close>

lemma positionalPhase_ascending_below_maxInt:
  assumes "posFields \<noteq> []" and "\<forall>(p, fi) \<in> set posFields. p < maxInt env"
  shows "positionalPhase env tys posFields raw sv =
           bindPositions env tys raw (registeredPositions posFields) sv 0
         \<and> map fst (registeredPositions posFields)
             = filter (\<lambda>p. map_of posFields p \<noteq> None) [0 .. Max (set (map fst posFields))]
         \<and> sorted (map fst (registeredPositions posFields))
         \<and> (\<forall>sv' consumed. positionalPhase env tys posFields raw sv = Inr (sv', consumed)
               \<longrightarrow> consumed = length (registeredPositions posFields))
         \<and> (length raw < length (registeredPositions posFields)
               \<longrightarrow> (\<exists>err. positionalPhase env tys posFields raw sv = Inl err
                      \<and> (err = NotEnoughPositional
                                  (fst (registeredPositions posFields ! length raw))
                           \<or> (\<exists>p e. err = ParsePositionalFailed p e))))"
proof -
  have eq: "positionalPhase env tys posFields raw sv =
           bindPositions env tys raw (registeredPositions posFields) sv 0"
    using assms by (rule positionalPhase_spec)
  have srt: "sorted (map fst (registeredPositions posFields))"
    unfolding registeredPositions_fst by (rule sorted_wrt_filter) (rule sorted_upto_int)
  have cnt: "\<forall>sv' consumed. positionalPhase env tys posFields raw sv = Inr (sv', consumed)
               \<longrightarrow> consumed = length (registeredPositions posFields)"
    unfolding eq using bindPositions_count by fastforce
  have short: "length raw < length (registeredPositions posFields)
               \<longrightarrow> (\<exists>err. positionalPhase env tys posFields raw sv = Inl err
                      \<and> (err = NotEnoughPositional
                                  (fst (registeredPositions posFields ! length raw))
                           \<or> (\<exists>p e. err = ParsePositionalFailed p e)))"
    unfolding eq
    using bindPositions_short [of 0 raw "registeredPositions posFields" env tys sv] by simp
  from eq registeredPositions_fst srt cnt short show ?thesis by blast
qed

lemma gap_positions: "registeredPositions [(2, 1), (0, 0)] = [(0, 0), (2, 1)]"
  by code_simp

lemma gap_phase:
  "positionalPhase testEnv [TString, TInt] [(2, 1), (0, 0)] [''in.txt'', ''7'', ''rest''] [VString [], VInt 0]
     = Inr ([VString ''in.txt'', VInt 7], 2)"
  by code_simp

lemma gap_phase_short:
  "positionalPhase testEnv [TString, TInt] [(2, 1), (0, 0)] [''in.txt''] [VString [], VInt 0]
     = Inl (NotEnoughPositional 2)"
  by code_simp

lemma positionalPhase_gap_example:
  "positionalPhase testEnv [TString, TInt] [(2, 1), (0, 0)] [''in.txt'', ''7'', ''rest'']
       [VString [], VInt 0]
     = bindPositions testEnv [TString, TInt] [''in.txt'', ''7'', ''rest''] [(0, 0), (2, 1)]
         [VString [], VInt 0] 0
   \<and> positionalPhase testEnv [TString, TInt] [(2, 1), (0, 0)] [''in.txt'', ''7'', ''rest'']
       [VString [], VInt 0]
     = Inr ([VString ''in.txt'', VInt 7], 2)
   \<and> positionalPhase testEnv [TString, TInt] [(2, 1), (0, 0)] [''in.txt''] [VString [], VInt 0]
     = Inl (NotEnoughPositional 2)"
proof -
  have ne: "[(2, 1), (0, 0)] \<noteq> ([] :: (int \<times> nat) list)" by simp
  have below: "\<forall>(p, fi) \<in> set [(2, 1), (0, 0)]. p < maxInt testEnv"
    by (simp add: maxInt_def testEnv_def)
  note spec = positionalPhase_ascending_below_maxInt [OF ne below, of "[TString, TInt]"
      "[''in.txt'', ''7'', ''rest'']" "[VString [], VInt 0]", unfolded gap_positions]
  from spec have "positionalPhase testEnv [TString, TInt] [(2, 1), (0, 0)]
       [''in.txt'', ''7'', ''rest''] [VString [], VInt 0]
     = bindPositions testEnv [TString, TInt] [''in.txt'', ''7'', ''rest''] [(0, 0), (2, 1)]
         [VString [], VInt 0] 0"
    by (rule conjunct1)
  with gap_phase gap_phase_short show ?thesis by (intro conjI)
qed

text \<open>A struct with one positional index: its one registered position.\<close>

lemma single_position:
  "concat (map (\<lambda>p. case map_of [(M, fi)] p of Some fi \<Rightarrow> [(p, fi)] | None \<Rightarrow> []) [lo .. hi])
     = (if lo \<le> M \<and> M \<le> hi then [(M, fi)] else [])"
proof (induction "nat (hi + 1 - lo)" arbitrary: lo)
  case 0
  then show ?case by simp
next
  case (Suc k)
  then have le: "lo \<le> hi" by simp
  have k: "k = nat (hi + 1 - (lo + 1))" using Suc(2) by simp
  have ih: "concat (map (\<lambda>p. case map_of [(M, fi)] p of Some fi \<Rightarrow> [(p, fi)] | None \<Rightarrow> [])
                 [lo + 1 .. hi])
              = (if lo + 1 \<le> M \<and> M \<le> hi then [(M, fi)] else [])"
    using k by (rule Suc(1))
  have up: "[lo .. hi] = lo # [lo + 1 .. hi]"
    using le by (rule upto_rec1)
  have "concat (map (\<lambda>p. case map_of [(M, fi)] p of Some fi \<Rightarrow> [(p, fi)] | None \<Rightarrow> [])
              [lo .. hi])
          = (case map_of [(M, fi)] lo of Some fi \<Rightarrow> [(lo, fi)] | None \<Rightarrow> [])
            @ (if lo + 1 \<le> M \<and> M \<le> hi then [(M, fi)] else [])"
    by (simp only: up list.map concat.simps ih)
  also have "\<dots> = (if lo \<le> M \<and> M \<le> hi then [(M, fi)] else [])"
    using le by auto
  finally show ?case .
qed

lemma FarArgs_maps:
  "buildFieldMaps testEnv [Field ''Input'' TString [(''arg'', ''9223372036854775807'')]]
     = ([(9223372036854775807, 0)], [], [])"
  by code_simp

lemma single_rounds:
  "concat (map (\<lambda>p. case map_of [(maxInt env, fi)] p of Some fi \<Rightarrow> [(p, fi)] | None \<Rightarrow> [])
             (concat (replicate rounds [minInt env .. maxInt env])))
     = replicate rounds (maxInt env, fi)"
proof (induction rounds)
  case 0
  then show ?case by simp
next
  case (Suc n)
  have "minInt env \<le> maxInt env"
    using minInt_neg [of env] maxInt_nonneg [of env] by simp
  then show ?case
    using Suc by (simp only: replicate_Suc concat.simps map_append concat_append single_position)
      simp
qed

lemma single_visited:
  "concat (map (\<lambda>p. case map_of [(maxInt env, fi)] p of Some fi \<Rightarrow> [(p, fi)] | None \<Rightarrow> [])
             (visited env (maxInt env) rounds))
     = replicate (Suc rounds) (maxInt env, fi)"
proof -
  have v: "visited env (maxInt env) rounds
             = [0 .. maxInt env] @ concat (replicate rounds [minInt env .. maxInt env])"
    by (simp add: visited_def)
  show ?thesis
    using maxInt_nonneg [of env]
    by (simp only: v map_append concat_append single_position single_rounds) simp
qed

lemma single_phase:
  "positionalPhase env tys [(maxInt env, fi)] raw sv
     = bindPositions env tys raw (replicate (Suc (Suc (length raw))) (maxInt env, fi)) sv 0"
proof -
  have "maxPosition [(maxInt env, fi)] (- 1) = maxInt env"
    using maxInt_nonneg [of env] by simp
  then show ?thesis
    by (simp only: positionalPhase_def positionalLoop_bindPositions single_visited) simp
qed

lemma single_registered:
  "0 \<le> M \<Longrightarrow> registeredPositions [(M, fi)] = [(M, fi)]"
  by (simp only: registeredPositions_def single_position) simp

lemma FarArgs_phase:
  "positionalPhase testEnv [TString] [(9223372036854775807, 0)] [''x''] [VString []]
     = Inl (NotEnoughPositional 9223372036854775807)"
  using single_phase [of testEnv "[TString]" 0 "[''x'']" "[VString []]"]
  by (simp add: maxInt_testEnv parseAndSetField_def)

lemma FarArgs_registered:
  "registeredPositions [(9223372036854775807, 0)] = [(9223372036854775807, 0)]"
  by (rule single_registered) simp

lemma positionalLoop_append:
  "positionalLoop env tys posFields raw (xs @ ys) sv c =
     (case positionalLoop env tys posFields raw xs sv c of
        Inl e \<Rightarrow> Inl e
      | Inr (sv', c') \<Rightarrow> positionalLoop env tys posFields raw ys sv' c')"
  by (induction xs arbitrary: sv c) (auto split: option.splits sum.splits)

lemma positionalLoop_mono:
  "positionalLoop env tys posFields raw ps sv c = Inr (sv', c') \<Longrightarrow> c \<le> c'"
proof (induction ps arbitrary: sv c)
  case Nil
  then show ?case by simp
next
  case (Cons p ps)
  show ?case
  proof (cases "map_of posFields p")
    case None
    then show ?thesis using Cons by simp
  next
    case (Some fi)
    then obtain sv1 where "positionalLoop env tys posFields raw ps sv1 (c + 1) = Inr (sv', c')"
      using Cons.prems by (auto split: if_splits sum.splits)
    then have "c + 1 \<le> c'" by (rule Cons.IH)
    then show ?thesis by simp
  qed
qed

lemma positionalLoop_last_registered:
  assumes "positionalLoop env tys posFields raw (xs @ [M]) sv c = Inr (sv', c')"
    and "map_of posFields M = Some fi"
  shows "c < c' \<and> c' \<le> length raw"
proof -
  obtain sv1 c1 where a: "positionalLoop env tys posFields raw xs sv c = Inr (sv1, c1)"
    and b: "positionalLoop env tys posFields raw [M] sv1 c1 = Inr (sv', c')"
    using assms(1) by (auto simp: positionalLoop_append split: sum.splits)
  have "c \<le> c1" using a by (rule positionalLoop_mono)
  moreover have "c1 < length raw \<and> c' = c1 + 1"
    using b assms(2) by (auto split: if_splits sum.splits)
  ultimately show ?thesis by simp
qed

text \<open>
  The loop of the source, run from \<open>p\<close> over a segment that ends below the greatest
  \<^verbatim>\<open>int\<close>, is the body run over the positions of the segment, and goes on after it.
\<close>

lemma positionalLoopInt_segment:
  assumes "hi \<le> mx" and "hi < maxInt env"
  shows "p \<le> hi + 1 \<Longrightarrow>
         positionalLoopInt env tys posFields raw mx p sv c =
           (case positionalLoop env tys posFields raw [p .. hi] sv c of
              Inl e \<Rightarrow> Some (Inl e)
            | Inr (sv', c') \<Rightarrow> positionalLoopInt env tys posFields raw mx (hi + 1) sv' c')"
proof (induction "nat (hi + 1 - p)" arbitrary: p sv c)
  case 0
  then have "p = hi + 1" by simp
  then show ?case by simp
next
  case (Suc k)
  then have le: "p \<le> hi" by simp
  have pm: "p \<le> mx" using le assms(1) by simp
  have inc: "incr env p = p + 1" using le assms(2) by (simp add: incr_def)
  have k: "k = nat (hi + 1 - (p + 1))" using Suc(2) by simp
  have le': "p + 1 \<le> hi + 1" using le by simp
  have up: "[p .. hi] = p # [p + 1 .. hi]" using le by (rule upto_rec1)
  note ih = Suc(1) [OF k le']
  show ?case
    by (subst positionalLoopInt.simps)
      (simp add: pm inc up ih split: option.splits sum.splits)
qed

lemma positionalLoopInt_below:
  assumes "- 1 \<le> mx" and "mx < maxInt env"
  shows "positionalLoopInt env tys posFields raw mx 0 sv 0 =
           Some (positionalLoop env tys posFields raw [0 .. mx] sv 0)"
proof -
  have le: "(0::int) \<le> mx + 1" using assms(1) by simp
  have stop: "\<And>sv' c'. positionalLoopInt env tys posFields raw mx (mx + 1) sv' c' = Some (Inr (sv', c'))"
    by (subst positionalLoopInt.simps) simp
  show ?thesis
    by (simp add: positionalLoopInt_segment [OF order_refl assms(2) le] stop
        split: sum.splits)
qed

text \<open>
  At the greatest \<^verbatim>\<open>int\<close> the counter wraps: a run of the loop from \<open>p\<close> passes the
  positions up to the greatest one and starts again at the least \<^verbatim>\<open>int\<close>.
\<close>

lemma positionalLoopInt_cycle:
  assumes "p \<le> maxInt env"
  shows "positionalLoopInt env tys posFields raw (maxInt env) p sv c =
           (case positionalLoop env tys posFields raw [p .. maxInt env] sv c of
              Inl e \<Rightarrow> Some (Inl e)
            | Inr (sv', c') \<Rightarrow>
                positionalLoopInt env tys posFields raw (maxInt env) (minInt env) sv' c')"
proof -
  let ?M = "maxInt env"
  have hi: "?M - 1 \<le> ?M" "?M - 1 < ?M" by simp_all
  have le: "p \<le> ?M - 1 + 1" using assms by simp
  have seg: "\<And>sv c. positionalLoopInt env tys posFields raw ?M p sv c =
           (case positionalLoop env tys posFields raw [p .. ?M - 1] sv c of
              Inl e \<Rightarrow> Some (Inl e)
            | Inr (sv', c') \<Rightarrow> positionalLoopInt env tys posFields raw ?M ?M sv' c')"
    using positionalLoopInt_segment [OF hi le] by (simp cong: sum.case_cong)
  have last: "\<And>sv c. positionalLoopInt env tys posFields raw ?M ?M sv c =
           (case positionalLoop env tys posFields raw [?M] sv c of
              Inl e \<Rightarrow> Some (Inl e)
            | Inr (sv', c') \<Rightarrow> positionalLoopInt env tys posFields raw ?M (minInt env) sv' c')"
    by (subst positionalLoopInt.simps) (simp add: incr_def split: option.splits sum.splits)
  have up: "[p .. ?M] = [p .. ?M - 1] @ [?M]"
    using assms upto_rec2 [of p ?M] by simp
  show ?thesis
    by (simp add: seg last up positionalLoop_append split: sum.splits)
qed

lemma positionalLoopInt_rounds:
  assumes "map_of posFields (maxInt env) = Some fi"
  shows "0 < rounds \<Longrightarrow> length raw < rounds + c \<Longrightarrow>
         positionalLoopInt env tys posFields raw (maxInt env) (minInt env) sv c =
           Some (positionalLoop env tys posFields raw
                   (concat (replicate rounds [minInt env .. maxInt env])) sv c)"
proof (induction rounds arbitrary: sv c)
  case 0
  then show ?case by simp
next
  case (Suc n)
  let ?M = "maxInt env"
  let ?cyc = "[minInt env .. ?M]"
  have mm: "minInt env \<le> ?M"
    using minInt_neg [of env] maxInt_nonneg [of env] by simp
  have up: "?cyc = [minInt env .. ?M - 1] @ [?M]"
    using mm upto_rec2 [of "minInt env" ?M] by simp
  show ?case
  proof (cases "positionalLoop env tys posFields raw ?cyc sv c")
    case (Inl e)
    then show ?thesis
      by (simp add: positionalLoopInt_cycle [OF mm] positionalLoop_append)
  next
    case (Inr r)
    obtain sv' c' where r: "r = (sv', c')" by (cases r)
    have res: "positionalLoop env tys posFields raw ([minInt env .. ?M - 1] @ [?M]) sv c
                 = Inr (sv', c')"
      using Inr r up by simp
    have cc: "c < c' \<and> c' \<le> length raw"
      using res assms by (rule positionalLoop_last_registered)
    have n: "0 < n" using cc Suc.prems(2) by simp
    have l: "length raw < n + c'" using cc Suc.prems(2) by simp
    show ?thesis
      using Inr r Suc.IH [OF n l, of sv']
      by (simp add: positionalLoopInt_cycle [OF mm] positionalLoop_append)
  qed
qed

lemma positionalLoopInt_wrap:
  assumes "map_of posFields (maxInt env) = Some fi"
  shows "positionalLoopInt env tys posFields raw (maxInt env) 0 sv 0 =
           Some (positionalLoop env tys posFields raw
                   ([0 .. maxInt env] @ concat (replicate (Suc (length raw))
                      [minInt env .. maxInt env])) sv 0)"
proof -
  let ?M = "maxInt env"
  have z: "0 \<le> ?M" by (rule maxInt_nonneg)
  have up: "[0 .. ?M] = [0 .. ?M - 1] @ [?M]"
    using z upto_rec2 [of 0 ?M] by simp
  show ?thesis
  proof (cases "positionalLoop env tys posFields raw [0 .. ?M] sv 0")
    case (Inl e)
    then show ?thesis
      by (simp only: positionalLoopInt_cycle [OF z] positionalLoop_append [of _ _ _ _ "[0 .. ?M]"])
        simp
  next
    case (Inr r)
    obtain sv' c' where r: "r = (sv', c')" by (cases r)
    have res: "positionalLoop env tys posFields raw ([0 .. ?M - 1] @ [?M]) sv 0 = Inr (sv', c')"
      using Inr r up by simp
    have cc: "0 < c' \<and> c' \<le> length raw"
      using res assms by (rule positionalLoop_last_registered)
    have l: "length raw < Suc (length raw) + c'" by simp
    have rest: "positionalLoopInt env tys posFields raw ?M (minInt env) sv' c' =
           Some (positionalLoop env tys posFields raw
                   (concat (replicate (Suc (length raw)) [minInt env .. ?M])) sv' c')"
      using assms zero_less_Suc l by (rule positionalLoopInt_rounds)
    show ?thesis
      using Inr r rest
      by (simp only: positionalLoopInt_cycle [OF z] positionalLoop_append [of _ _ _ _ "[0 .. ?M]"])
        simp
  qed
qed

text \<open>
  The loop \<^verbatim>\<open>for p := 0; p <= max; p++\<close> of the source, with its wrapping counter, returns,
  and returns what the positional phase of the model gives, for every struct whose
  positional indices are values of an \<^verbatim>\<open>int\<close>.
\<close>

lemma maxPosition_in:
  "maxPosition posFields (- 1) = - 1 \<or> maxPosition posFields (- 1) \<in> fst ` set posFields"
proof -
  have "Max (insert (- 1) (set (map fst posFields))) \<in> insert (- 1) (set (map fst posFields))"
    by (rule Max_in) simp_all
  then show ?thesis
    by (simp add: maxPosition_Max del: Max_insert) 
qed

lemma maxPosition_ge: "- 1 \<le> maxPosition posFields (- 1)"
  by (simp add: maxPosition_Max)

lemma positionalLoopInt_positionalPhase:
  assumes "posFields \<noteq> []" and "\<forall>(p, fi) \<in> set posFields. p \<le> maxInt env"
  shows "positionalLoopInt env tys posFields raw (maxPosition posFields (- 1)) 0 sv 0
           = Some (positionalPhase env tys posFields raw sv)"
proof (cases "maxPosition posFields (- 1) < maxInt env")
  case True
  then show ?thesis
    using assms(1) maxPosition_ge [of posFields]
    by (simp add: positionalPhase_def visited_def positionalLoopInt_below)
next
  case False
  have "\<forall>k \<in> insert (- 1) (set (map fst posFields)). k \<le> maxInt env"
    using assms(2) maxInt_nonneg [of env] by auto
  then have "maxPosition posFields (- 1) \<le> maxInt env"
    unfolding maxPosition_Max by (subst Max_le_iff) simp_all
  then have eq: "maxPosition posFields (- 1) = maxInt env" using False by simp
  have "maxInt env \<noteq> - 1" using maxInt_nonneg [of env] by simp
  then have "maxInt env \<in> fst ` set posFields"
    using maxPosition_in [of posFields] eq by simp
  then obtain fi where fi: "map_of posFields (maxInt env) = Some fi"
    by (metis domD dom_map_of_conv_image_fst)
  show ?thesis
    using assms(1) positionalLoopInt_wrap [OF fi, of tys raw sv]
    by (simp add: positionalPhase_def visited_def eq)
qed

text \<open>At the greatest \<^verbatim>\<open>int\<close> the loop has no way out but an error.\<close>

lemma positionalPhase_wrap_fails:
  assumes "map_of posFields (maxInt env) = Some fi"
    and "maxPosition posFields (- 1) = maxInt env"
  shows "\<exists>e. positionalPhase env tys posFields raw sv = Inl e"
proof (cases "positionalPhase env tys posFields raw sv")
  case (Inl e)
  then show ?thesis by simp
next
  case (Inr r)
  obtain sv' c' where r: "r = (sv', c')" by (cases r)
  let ?M = "maxInt env"
  let ?cyc = "[minInt env .. ?M]"
  have ne: "posFields \<noteq> []" using assms(1) by auto
  have mm: "minInt env \<le> ?M"
    using minInt_neg [of env] maxInt_nonneg [of env] by simp
  have cyc: "?cyc = [minInt env .. ?M - 1] @ [?M]"
    using mm upto_rec2 [of "minInt env" ?M] by simp
  have steps: "\<And>n sv0 c0 sv1 c1.
      positionalLoop env tys posFields raw (concat (replicate n ?cyc)) sv0 c0 = Inr (sv1, c1)
        \<Longrightarrow> c0 + n \<le> c1 \<and> (n = 0 \<or> c1 \<le> length raw)"
  proof -
    fix n sv0 c0 sv1 c1
    show "positionalLoop env tys posFields raw (concat (replicate n ?cyc)) sv0 c0 = Inr (sv1, c1)
        \<Longrightarrow> c0 + n \<le> c1 \<and> (n = 0 \<or> c1 \<le> length raw)"
    proof (induction n arbitrary: sv0 c0)
      case 0
      then show ?case by simp
    next
      case (Suc n)
      obtain sv2 c2 where a: "positionalLoop env tys posFields raw ?cyc sv0 c0 = Inr (sv2, c2)"
        and b: "positionalLoop env tys posFields raw (concat (replicate n ?cyc)) sv2 c2
                  = Inr (sv1, c1)"
        using Suc.prems by (auto simp: positionalLoop_append split: sum.splits)
      have "positionalLoop env tys posFields raw ([minInt env .. ?M - 1] @ [?M]) sv0 c0
              = Inr (sv2, c2)"
        using a cyc by simp
      then have c2: "c0 < c2 \<and> c2 \<le> length raw"
        using assms(1) by (rule positionalLoop_last_registered)
      have ih: "c2 + n \<le> c1 \<and> (n = 0 \<or> c1 \<le> length raw)" using b by (rule Suc.IH)
      have "c2 \<le> c1" using b by (rule positionalLoop_mono)
      show ?case
      proof (cases "n = 0")
        case True
        then have "c1 = c2" using b by simp
        then show ?thesis using c2 True by simp
      next
        case False
        then show ?thesis using ih c2 by simp
      qed
    qed
  qed
  have "positionalLoop env tys posFields raw
          ([0 .. ?M] @ concat (replicate (Suc (length raw)) ?cyc)) sv 0 = Inr (sv', c')"
    using Inr r ne assms(2) by (simp add: positionalPhase_def visited_def)
  then obtain sv2 c2 where
    b: "positionalLoop env tys posFields raw (concat (replicate (Suc (length raw)) ?cyc)) sv2 c2
          = Inr (sv', c')"
    by (auto simp only: positionalLoop_append split: sum.splits prod.splits)
  have "c2 + Suc (length raw) \<le> c' \<and> (Suc (length raw) = 0 \<or> c' \<le> length raw)"
    using b by (rule steps)
  then have False by arith
  then show ?thesis ..
qed

text \<open>
  The positional indices of a struct are results of \<^verbatim>\<open>strconv.Atoi\<close>, values of an
  \<^verbatim>\<open>int\<close>; so for every struct the loop of the source returns what the positional phase
  of the model gives.
\<close>

lemma parseUintLoop_nonneg:
  "0 \<le> n \<Longrightarrow> parseUintLoop maxVal s n = Inr v \<Longrightarrow> 0 \<le> v"
proof (induction s arbitrary: n)
  case Nil
  then show ?case by simp
next
  case (Cons c cs)
  have d: "isDigit c" using Cons.prems(2) by (simp split: if_splits)
  have "(of_char c :: int) = int (of_char c)" by (simp only: of_nat_of_char)
  then have "0 \<le> digitVal c" using d by (simp add: isDigit_def digitVal_def)
  then have n: "0 \<le> n * 10 + digitVal c" using Cons.prems(1) by simp
  have "parseUintLoop maxVal cs (n * 10 + digitVal c) = Inr v"
    using Cons.prems(2) d by (simp split: if_splits)
  with n show ?case by (rule Cons.IH)
qed

lemma Atoi_le_maxInt:
  assumes "Atoi env s = Inr n"
  shows "n \<le> maxInt env"
proof -
  let ?s1 = "if hd s = CHR ''+'' \<or> hd s = CHR ''-'' then tl s else s"
  obtain un where un: "parseUintLoop (2 ^ intSize env - 1) ?s1 0 = Inr un"
    and n: "n = (if hd s = CHR ''-'' then - un else un)"
    and r: "\<not> (hd s \<noteq> CHR ''-'' \<and> un \<ge> 2 ^ (intSize env - 1))"
    using assms
    by (auto simp: Atoi_def parseIntBits_def Let_def split: if_splits sum.splits numerr.splits)
  have z: "0 \<le> un" using un by (rule parseUintLoop_nonneg [rotated]) simp
  show ?thesis
  proof (cases "hd s = CHR ''-''")
    case True
    then have "n \<le> 0" using n z by simp
    then show ?thesis using maxInt_nonneg [of env] by simp
  next
    case False
    then show ?thesis using n r by (simp add: maxInt_def)
  qed
qed

lemma buildFieldMapsFrom_le_maxInt:
  assumes "\<forall>(p, fi) \<in> set posFields. p \<le> maxInt env"
  shows "\<forall>(p, fi) \<in> set (fst (buildFieldMapsFrom env fs i (posFields, longMap, shortMap))).
           p \<le> maxInt env"
  using assms
proof (induction fs arbitrary: i posFields longMap shortMap)
  case Nil
  then show ?case by simp
next
  case (Cons f fs)
  have upd: "\<And>n. n \<le> maxInt env \<Longrightarrow> \<forall>(p, fi) \<in> set (AList.update n i posFields). p \<le> maxInt env"
  proof -
    fix n
    assume n: "n \<le> maxInt env"
    have "set (AList.update n i posFields) \<subseteq> insert (n, i) (set posFields)"
      by (induction posFields) auto
    then show "\<forall>(p, fi) \<in> set (AList.update n i posFields). p \<le> maxInt env"
      using n Cons.prems by auto
  qed
  show ?case
  proof (cases "Lookup (ftag f) ''arg''")
    case None
    then show ?thesis
      using Cons.prems by (simp add: Let_def Cons.IH)
  next
    case (Some v)
    show ?thesis
    proof (cases "Atoi env v")
      case (Inl err)
      then show ?thesis
        using Some Cons.prems by (simp add: Let_def Cons.IH)
    next
      case (Inr n)
      then have "n \<le> maxInt env" by (rule Atoi_le_maxInt)
      then have "\<forall>(p, fi) \<in> set (AList.update n i posFields). p \<le> maxInt env" by (rule upd)
      then show ?thesis
        using Some Inr by (simp add: Let_def Cons.IH)
    qed
  qed
qed

lemma positionalLoopInt_buildFieldMaps:
  assumes "fst (buildFieldMaps env fs) = posFields" and "posFields \<noteq> []"
  shows "positionalLoopInt env tys posFields raw (maxPosition posFields (- 1)) 0 sv 0
           = Some (positionalPhase env tys posFields raw sv)"
proof -
  have "\<forall>(p, fi) \<in> set (fst (buildFieldMapsFrom env fs 0 ([], [], []))). p \<le> maxInt env"
    by (rule buildFieldMapsFrom_le_maxInt) simp
  then have "\<forall>(p, fi) \<in> set posFields. p \<le> maxInt env"
    using assms(1) by (simp add: buildFieldMaps_def)
  with assms(2) show ?thesis by (rule positionalLoopInt_positionalPhase)
qed

text \<open>
  C7. The positional phase is to pass the positions from 0 to the greatest declared index
  once, in ascending order, and to take one token at each position that has a field. For
  the struct with the one field \<^verbatim>\<open>Input string `arg:"9223372036854775807"`\<close> and the one
  token \<^verbatim>\<open>x\<close>, the binder of the specification takes the token at the one registered
  position and succeeds with count 1. In the code the greatest index is the greatest
  \<^verbatim>\<open>int\<close>, the condition \<^verbatim>\<open>p <= max\<close> never fails, \<^verbatim>\<open>p++\<close> wraps to the least \<^verbatim>\<open>int\<close> after
  the position has taken the token, the loop comes to the position a second time, and the
  call fails for want of a token.
\<close>

theorem positional_phase_revisits_greatest_position:
  "buildFieldMaps testEnv [Field ''Input'' TString [(''arg'', ''9223372036854775807'')]]
     = ([(9223372036854775807, 0)], [], [])
   \<and> maxInt testEnv = 9223372036854775807
   \<and> registeredPositions [(9223372036854775807, 0)] = [(9223372036854775807, 0)]
   \<and> bindPositions testEnv [TString] [''x''] [(9223372036854775807, 0)] [VString []] 0
       = Inr ([VString ''x''], 1)
   \<and> positionalLoopInt testEnv [TString] [(9223372036854775807, 0)] [''x'']
         9223372036854775807 0 [VString []] 0
       = Some (Inl (NotEnoughPositional 9223372036854775807))
   \<and> positionalPhase testEnv [TString] [(9223372036854775807, 0)] [''x''] [VString []]
       = Inl (NotEnoughPositional 9223372036854775807)
   \<and> parseStructArgs testEnv [''x''] FarArgs = Inl (NotEnoughPositional 9223372036854775807)"
proof -
  have mp: "maxPosition [(9223372036854775807, 0)] (- 1) = 9223372036854775807"
    by simp
  have loop: "positionalLoopInt testEnv [TString] [(9223372036854775807, 0)] [''x'']
                9223372036854775807 0 [VString []] 0
              = Some (Inl (NotEnoughPositional 9223372036854775807))"
    using positionalLoopInt_buildFieldMaps [OF _ _, of testEnv
        "[Field ''Input'' TString [(''arg'', ''9223372036854775807'')]]"
        "[(9223372036854775807, 0)]" "[TString]" "[''x'']" "[VString []]"]
    by (simp only: FarArgs_maps fst_conv mp FarArgs_phase) simp
  have bind: "bindPositions testEnv [TString] [''x''] [(9223372036854775807, 0)] [VString []] 0
                = Inr ([VString ''x''], 1)"
    by (simp add: parseAndSetField_def)
  have whole: "parseStructArgs testEnv [''x''] FarArgs
                 = Inl (NotEnoughPositional 9223372036854775807)"
    by (simp add: FarArgs_maps FarArgs_phase parseStructArgs_def FarArgs_def)
  show ?thesis
    using FarArgs_maps maxInt_testEnv(1) FarArgs_registered bind loop FarArgs_phase whole
    by (intro conjI)
qed

subsection \<open>Long options in the option scan\<close>

lemma IndexByte_None: "c \<notin> set s \<Longrightarrow> IndexByte s c = None"
  by (induction s) auto

lemma IndexByte_append: "c \<notin> set s \<Longrightarrow> IndexByte (s @ c # t) c = Some (length s)"
  by (induction s) auto

lemma HasPrefix_append: "HasPrefix s p \<Longrightarrow> HasPrefix (s @ t) p"
proof -
  assume "HasPrefix s p"
  then have p: "take (length p) s = p" by (simp add: HasPrefix_def)
  then have "length (take (length p) s) = length p" by simp
  then have "length p \<le> length s" by simp
  then show ?thesis using p by (simp add: HasPrefix_def)
qed

lemma scanOptions_long_eq:
  assumes "i < length raw" "HasPrefix name ''--''" "CHR ''='' \<notin> set name"
    and "raw ! i = name @ CHR ''='' # value"
  shows "scanOptions env tys longMap shortMap raw i sv =
           (case map_of longMap name of
              Some fi \<Rightarrow>
                (case parseAndSetField env tys sv fi value of
                   Inl err \<Rightarrow> Inl (ParseOptionFailed name err)
                 | Inr sv' \<Rightarrow> scanOptions env tys longMap shortMap raw (i + 1) sv')
            | None \<Rightarrow> scanOptions env tys longMap shortMap raw (i + 1) sv)"
proof -
  have pre: "HasPrefix (raw ! i) ''--''"
    unfolding assms(4) using assms(2) by (rule HasPrefix_append)
  have idx: "IndexByte (raw ! i) (CHR ''='') = Some (length name)"
    unfolding assms(4) using assms(3) by (rule IndexByte_append)
  have tk: "take (length name) (raw ! i) = name"
    by (simp add: assms(4))
  have dr: "drop (Suc (length name)) (raw ! i) = value"
    by (simp add: assms(4))
  show ?thesis
    by (subst scanOptions.simps)
       (simp add: assms(1) pre idx Let_def tk dr cong: option.case_cong sum.case_cong)
qed

lemma scanOptions_long_bare:
  assumes "i < length raw" "HasPrefix name ''--''" "CHR ''='' \<notin> set name"
    and "raw ! i = name"
  shows "scanOptions env tys longMap shortMap raw i sv =
           (case map_of longMap name of
              Some fi \<Rightarrow>
                if isBoolField (tys ! fi)
                then scanOptions env tys longMap shortMap raw (i + 1) (setBoolField tys sv fi)
                else if i + 1 \<ge> length raw then Inl (MissingValue name)
                else (case parseAndSetField env tys sv fi (raw ! (i + 1)) of
                        Inl err \<Rightarrow> Inl (ParseOptionFailed name err)
                      | Inr sv' \<Rightarrow> scanOptions env tys longMap shortMap raw (i + 2) sv')
            | None \<Rightarrow> Inl (UnknownOption name))"
proof -
  have idx: "IndexByte (raw ! i) (CHR ''='') = None"
    unfolding assms(4) using assms(3) by (rule IndexByte_None)
  show ?thesis
    by (subst scanOptions.simps) (simp add: assms(1,2) assms(4) idx [unfolded assms(4)] Let_def)
qed

text \<open>
  C4. In the option scan, at a token of the cursor that begins with \<^verbatim>\<open>--\<close>: a token
  \<open>name=value\<close> whose name is not a long option is skipped, and the scan goes on at the
  next token with the struct value unchanged; the token \<open>name\<close> alone, for the same
  unknown name, fails with the unknown-option error; and for a known long option of a
  field that is not boolean, the token \<open>name\<close> takes the next token as its value, or
  fails with the missing-value error when no token follows.
\<close>

theorem long_option_scan_unknown_and_missing_value:
  assumes "i < length raw" "HasPrefix name ''--''" "CHR ''='' \<notin> set name"
  shows "(raw ! i = name @ ''='' @ v \<and> map_of longMap name = None \<longrightarrow>
            scanOptions env tys longMap shortMap raw i sv
              = scanOptions env tys longMap shortMap raw (i + 1) sv)
       \<and> (raw ! i = name \<and> map_of longMap name = None \<longrightarrow>
            scanOptions env tys longMap shortMap raw i sv = Inl (UnknownOption name))
       \<and> (raw ! i = name \<and> map_of longMap name = Some fi \<and> \<not> isBoolField (tys ! fi) \<longrightarrow>
            scanOptions env tys longMap shortMap raw i sv
              = (if i + 1 < length raw
                 then (case parseAndSetField env tys sv fi (raw ! (i + 1)) of
                         Inl err \<Rightarrow> Inl (ParseOptionFailed name err)
                       | Inr sv' \<Rightarrow> scanOptions env tys longMap shortMap raw (i + 2) sv')
                 else Inl (MissingValue name)))"
proof (intro conjI impI)
  assume "raw ! i = name @ ''='' @ v \<and> map_of longMap name = None"
  then show "scanOptions env tys longMap shortMap raw i sv
              = scanOptions env tys longMap shortMap raw (i + 1) sv"
    using scanOptions_long_eq [OF assms, of v env tys longMap shortMap sv] by simp
next
  assume "raw ! i = name \<and> map_of longMap name = None"
  then show "scanOptions env tys longMap shortMap raw i sv = Inl (UnknownOption name)"
    using scanOptions_long_bare [OF assms, of env tys longMap shortMap sv] by simp
next
  assume "raw ! i = name \<and> map_of longMap name = Some fi \<and> \<not> isBoolField (tys ! fi)"
  then show "scanOptions env tys longMap shortMap raw i sv
              = (if i + 1 < length raw
                 then (case parseAndSetField env tys sv fi (raw ! (i + 1)) of
                         Inl err \<Rightarrow> Inl (ParseOptionFailed name err)
                       | Inr sv' \<Rightarrow> scanOptions env tys longMap shortMap raw (i + 2) sv')
                 else Inl (MissingValue name))"
    using scanOptions_long_bare [OF assms, of env tys longMap shortMap sv] by auto
qed

lemma scanOptions_end:
  "\<not> i < length raw \<Longrightarrow> scanOptions env tys longMap shortMap raw i sv = Inr (sv, i)"
  by (subst scanOptions.simps) simp

lemma parseAndSetField_bool:
  assumes "isBoolField (tys ! fi)"
  shows "parseAndSetField env tys sv fi value =
           (case ParseBool value of
              Inl err \<Rightarrow> Inl err
            | Inr b \<Rightarrow> Inr (sv[fi := (if tys ! fi = TBool then VBool b else VPtr (Some (VBool b)))]))"
  using assms by (auto simp: isBoolField_def parseAndSetField_def split: sum.splits)

lemma setBoolField_bool:
  assumes "isBoolField (tys ! fi)"
  shows "setBoolField tys sv fi
           = sv[fi := (if tys ! fi = TBool then VBool True else VPtr (Some (VBool True)))]"
  using assms by (auto simp: isBoolField_def setBoolField_def)

lemma ParseBool_false: "ParseBool ''false'' = Inr False"
  by (simp add: ParseBool_def)

lemma ParseBool_notabool: "ParseBool ''notabool'' = Inl (NumError ''ParseBool'' ''notabool'' ErrSyntax)"
  by (simp add: ParseBool_def)

text \<open>
  C10. For a known long option of a \<^verbatim>\<open>bool\<close> or \<^verbatim>\<open>*bool\<close> field, the token \<open>name=value\<close>
  is not handled as a flag: the value is parsed by \<^verbatim>\<open>strconv.ParseBool\<close> and assigned, so
  \<open>name=false\<close> sets the field to false and \<open>name=notabool\<close> fails with the parse error,
  while the token \<open>name\<close> alone sets the field to true.
\<close>

theorem long_option_with_value_on_bool_field:
  assumes "i < length raw" "HasPrefix name ''--''" "CHR ''='' \<notin> set name"
    and "map_of longMap name = Some fi" "isBoolField (tys ! fi)"
  shows "(raw ! i = name @ ''='' @ value \<longrightarrow>
            scanOptions env tys longMap shortMap raw i sv
              = (case ParseBool value of
                   Inl err \<Rightarrow> Inl (ParseOptionFailed name err)
                 | Inr b \<Rightarrow>
                     scanOptions env tys longMap shortMap raw (i + 1)
                       (sv[fi := (if tys ! fi = TBool then VBool b else VPtr (Some (VBool b)))])))
       \<and> (raw ! i = name @ ''=false'' \<longrightarrow>
            scanOptions env tys longMap shortMap raw i sv
              = scanOptions env tys longMap shortMap raw (i + 1)
                  (sv[fi := (if tys ! fi = TBool then VBool False else VPtr (Some (VBool False)))]))
       \<and> (raw ! i = name @ ''=notabool'' \<longrightarrow>
            scanOptions env tys longMap shortMap raw i sv
              = Inl (ParseOptionFailed name (NumError ''ParseBool'' ''notabool'' ErrSyntax)))
       \<and> (raw ! i = name \<longrightarrow>
            scanOptions env tys longMap shortMap raw i sv
              = scanOptions env tys longMap shortMap raw (i + 1)
                  (sv[fi := (if tys ! fi = TBool then VBool True else VPtr (Some (VBool True)))]))"
proof -
  have gen: "raw ! i = name @ ''='' @ v \<Longrightarrow>
            scanOptions env tys longMap shortMap raw i sv
              = (case ParseBool v of
                   Inl err \<Rightarrow> Inl (ParseOptionFailed name err)
                 | Inr b \<Rightarrow>
                     scanOptions env tys longMap shortMap raw (i + 1)
                       (sv[fi := (if tys ! fi = TBool then VBool b else VPtr (Some (VBool b)))]))" for v
    using scanOptions_long_eq [OF assms(1,2,3), of v env tys longMap shortMap sv]
    by (simp add: assms(4) parseAndSetField_bool [OF assms(5)] split: sum.splits)
  have f: "raw ! i = name @ ''=false'' \<longrightarrow>
            scanOptions env tys longMap shortMap raw i sv
              = scanOptions env tys longMap shortMap raw (i + 1)
                  (sv[fi := (if tys ! fi = TBool then VBool False else VPtr (Some (VBool False)))])"
    using gen [of "''false''"] by (simp add: ParseBool_false)
  have n: "raw ! i = name @ ''=notabool'' \<longrightarrow>
            scanOptions env tys longMap shortMap raw i sv
              = Inl (ParseOptionFailed name (NumError ''ParseBool'' ''notabool'' ErrSyntax))"
    using gen [of "''notabool''"] by (simp add: ParseBool_notabool)
  have b: "raw ! i = name \<longrightarrow>
            scanOptions env tys longMap shortMap raw i sv
              = scanOptions env tys longMap shortMap raw (i + 1)
                  (sv[fi := (if tys ! fi = TBool then VBool True else VPtr (Some (VBool True)))])"
    using scanOptions_long_bare [OF assms(1,2,3), of env tys longMap shortMap sv]
    by (simp add: assms(4,5) setBoolField_bool [OF assms(5)])
  from gen f n b show ?thesis by blast
qed

theorem long_option_scan_unknown_and_missing_value_witness:
  "scanOptions testEnv [TString, TString, TBool] [(''--out'', 1), (''--usemarkdown'', 2)]
       [(''-o'', 1)] [''--bogus=1''] 0 [VString [], VString [], VBool False]
     = Inr ([VString [], VString [], VBool False], 1)
   \<and> scanOptions testEnv [TString, TString, TBool] [(''--out'', 1), (''--usemarkdown'', 2)]
       [(''-o'', 1)] [''--bogus''] 0 [VString [], VString [], VBool False]
     = Inl (UnknownOption ''--bogus'')
   \<and> scanOptions testEnv [TString, TString, TBool] [(''--out'', 1), (''--usemarkdown'', 2)]
       [(''-o'', 1)] [''--out''] 0 [VString [], VString [], VBool False]
     = Inl (MissingValue ''--out'')
   \<and> scanOptions testEnv [TString, TString, TBool] [(''--out'', 1), (''--usemarkdown'', 2)]
       [(''-o'', 1)] [''--out'', ''o.txt''] 0 [VString [], VString [], VBool False]
     = Inr ([VString [], VString ''o.txt'', VBool False], 2)"
proof (intro conjI)
  show "scanOptions testEnv [TString, TString, TBool] [(''--out'', 1), (''--usemarkdown'', 2)]
       [(''-o'', 1)] [''--bogus=1''] 0 [VString [], VString [], VBool False]
     = Inr ([VString [], VString [], VBool False], 1)"
    using long_option_scan_unknown_and_missing_value [where i = 0 and raw = "[''--bogus=1'']"
        and name = "''--bogus''" and v = "''1''"
        and longMap = "[(''--out'', 1), (''--usemarkdown'', 2)]" and env = testEnv
        and tys = "[TString, TString, TBool]" and shortMap = "[(''-o'', 1)]"
        and sv = "[VString [], VString [], VBool False]"]
    by (simp add: HasPrefix_def scanOptions_end)
  show "scanOptions testEnv [TString, TString, TBool] [(''--out'', 1), (''--usemarkdown'', 2)]
       [(''-o'', 1)] [''--bogus''] 0 [VString [], VString [], VBool False]
     = Inl (UnknownOption ''--bogus'')"
    using long_option_scan_unknown_and_missing_value [where i = 0 and raw = "[''--bogus'']"
        and name = "''--bogus''"
        and longMap = "[(''--out'', 1), (''--usemarkdown'', 2)]" and env = testEnv
        and tys = "[TString, TString, TBool]" and shortMap = "[(''-o'', 1)]"
        and sv = "[VString [], VString [], VBool False]"]
    by (simp add: HasPrefix_def)
  show "scanOptions testEnv [TString, TString, TBool] [(''--out'', 1), (''--usemarkdown'', 2)]
       [(''-o'', 1)] [''--out''] 0 [VString [], VString [], VBool False]
     = Inl (MissingValue ''--out'')"
    using long_option_scan_unknown_and_missing_value [where i = 0 and raw = "[''--out'']"
        and name = "''--out''" and fi = 1
        and longMap = "[(''--out'', 1), (''--usemarkdown'', 2)]" and env = testEnv
        and tys = "[TString, TString, TBool]" and shortMap = "[(''-o'', 1)]"
        and sv = "[VString [], VString [], VBool False]"]
    by (simp add: HasPrefix_def isBoolField_def)
  show "scanOptions testEnv [TString, TString, TBool] [(''--out'', 1), (''--usemarkdown'', 2)]
       [(''-o'', 1)] [''--out'', ''o.txt''] 0 [VString [], VString [], VBool False]
     = Inr ([VString [], VString ''o.txt'', VBool False], 2)"
    using long_option_scan_unknown_and_missing_value [where i = 0
        and raw = "[''--out'', ''o.txt'']"
        and name = "''--out''" and fi = 1
        and longMap = "[(''--out'', 1), (''--usemarkdown'', 2)]" and env = testEnv
        and tys = "[TString, TString, TBool]" and shortMap = "[(''-o'', 1)]"
        and sv = "[VString [], VString [], VBool False]"]
    by (simp add: HasPrefix_def isBoolField_def parseAndSetField_def scanOptions_end)
qed

theorem long_option_with_value_on_bool_field_witness:
  "scanOptions testEnv [TString, TString, TBool] [(''--out'', 1), (''--usemarkdown'', 2)]
       [(''-o'', 1)] [''--usemarkdown=false''] 0 [VString [], VString [], VBool True]
     = Inr ([VString [], VString [], VBool False], 1)
   \<and> scanOptions testEnv [TString, TString, TBool] [(''--out'', 1), (''--usemarkdown'', 2)]
       [(''-o'', 1)] [''--usemarkdown=notabool''] 0 [VString [], VString [], VBool False]
     = Inl (ParseOptionFailed ''--usemarkdown'' (NumError ''ParseBool'' ''notabool'' ErrSyntax))
   \<and> scanOptions testEnv [TString, TString, TBool] [(''--out'', 1), (''--usemarkdown'', 2)]
       [(''-o'', 1)] [''--usemarkdown''] 0 [VString [], VString [], VBool False]
     = Inr ([VString [], VString [], VBool True], 1)"
proof (intro conjI)
  show "scanOptions testEnv [TString, TString, TBool] [(''--out'', 1), (''--usemarkdown'', 2)]
       [(''-o'', 1)] [''--usemarkdown=false''] 0 [VString [], VString [], VBool True]
     = Inr ([VString [], VString [], VBool False], 1)"
    using long_option_with_value_on_bool_field [where i = 0
        and raw = "[''--usemarkdown=false'']" and name = "''--usemarkdown''" and fi = 2
        and longMap = "[(''--out'', 1), (''--usemarkdown'', 2)]" and env = testEnv
        and tys = "[TString, TString, TBool]" and shortMap = "[(''-o'', 1)]"
        and sv = "[VString [], VString [], VBool True]"]
    by (simp add: HasPrefix_def isBoolField_def scanOptions_end)
  show "scanOptions testEnv [TString, TString, TBool] [(''--out'', 1), (''--usemarkdown'', 2)]
       [(''-o'', 1)] [''--usemarkdown=notabool''] 0 [VString [], VString [], VBool False]
     = Inl (ParseOptionFailed ''--usemarkdown'' (NumError ''ParseBool'' ''notabool'' ErrSyntax))"
    using long_option_with_value_on_bool_field [where i = 0
        and raw = "[''--usemarkdown=notabool'']" and name = "''--usemarkdown''" and fi = 2
        and longMap = "[(''--out'', 1), (''--usemarkdown'', 2)]" and env = testEnv
        and tys = "[TString, TString, TBool]" and shortMap = "[(''-o'', 1)]"
        and sv = "[VString [], VString [], VBool False]"]
    by (simp add: HasPrefix_def isBoolField_def)
  show "scanOptions testEnv [TString, TString, TBool] [(''--out'', 1), (''--usemarkdown'', 2)]
       [(''-o'', 1)] [''--usemarkdown''] 0 [VString [], VString [], VBool False]
     = Inr ([VString [], VString [], VBool True], 1)"
    using long_option_with_value_on_bool_field [where i = 0
        and raw = "[''--usemarkdown'']" and name = "''--usemarkdown''" and fi = 2
        and longMap = "[(''--out'', 1), (''--usemarkdown'', 2)]" and env = testEnv
        and tys = "[TString, TString, TBool]" and shortMap = "[(''-o'', 1)]"
        and sv = "[VString [], VString [], VBool False]"]
    by (simp add: HasPrefix_def isBoolField_def scanOptions_end)
qed

subsection \<open>Round trips of the type coercer\<close>

text \<open>
  \<^verbatim>\<open>strconv.Itoa\<close> and \<^verbatim>\<open>strconv.FormatBool\<close> give the canonical renderings. Coercing the
  rendering of a value gives the value back for strings, for \<^verbatim>\<open>int\<close> and \<^verbatim>\<open>int64\<close> in their
  ranges and for booleans; a kind that is not one of the five primitives is refused. For
  \<^verbatim>\<open>float64\<close> the coercer hands the token to \<^verbatim>\<open>strconv.ParseFloat\<close>, which this model
  takes as a parameter, so its round trip is a property of that function alone and is
  not stated here.
\<close>

lemma of_char_char_of_nat: "n < 256 \<Longrightarrow> (of_char (char_of n) :: nat) = n"
  by simp

lemma isDigit_digitChar: "d < 10 \<Longrightarrow> isDigit (digitChar d)"
  by (simp add: isDigit_def digitChar_def)

lemma digitVal_digitChar: "d < 10 \<Longrightarrow> digitVal (digitChar d) = int d"
proof -
  assume d: "d < 10"
  have "(of_char (digitChar d) :: int) = int (of_char (digitChar d) :: nat)"
    by (simp add: of_char_def)
  also have "\<dots> = int (48 + d)" using d by (simp add: digitChar_def)
  finally show ?thesis by (simp add: digitVal_def)
qed

lemma digitChar_not_sign: "d < 10 \<Longrightarrow> digitChar d \<noteq> CHR ''+'' \<and> digitChar d \<noteq> CHR ''-''"
proof -
  assume d: "d < 10"
  have v: "(of_char (digitChar d) :: nat) = 48 + d" using d by (simp add: digitChar_def)
  show ?thesis
  proof (intro conjI notI)
    assume "digitChar d = CHR ''+''"
    then have "(of_char (digitChar d) :: nat) = of_char (CHR ''+'')" by simp
    with v show False by simp
  next
    assume "digitChar d = CHR ''-''"
    then have "(of_char (digitChar d) :: nat) = of_char (CHR ''-'')" by simp
    with v show False by simp
  qed
qed

lemma parseUintLoop_snoc:
  "parseUintLoop M (s @ [c]) acc =
     (case parseUintLoop M s acc of
        Inl e \<Rightarrow> Inl e
      | Inr k \<Rightarrow>
          if \<not> isDigit c then Inl ErrSyntax
          else if k * 10 + digitVal c > M then Inl ErrRange
          else Inr (k * 10 + digitVal c))"
  by (induction s arbitrary: acc) auto

lemma natStr_not_Nil: "natStr n \<noteq> []"
  by (subst natStr.simps) simp

lemma hd_natStr: "\<exists>d < 10. hd (natStr n) = digitChar d"
proof (induction n rule: natStr.induct)
  case (1 n)
  show ?case
  proof (cases "n < 10")
    case True
    then show ?thesis by (subst natStr.simps) auto
  next
    case False
    then have "hd (natStr n) = hd (natStr (n div 10))"
      by (subst natStr.simps) (simp add: natStr_not_Nil)
    then show ?thesis using 1 False by simp
  qed
qed

lemma parseUintLoop_natStr:
  "int n \<le> M \<Longrightarrow> parseUintLoop M (natStr n) 0 = Inr (int n)"
proof (induction n rule: natStr.induct)
  case (1 n)
  show ?case
  proof (cases "n < 10")
    case True
    then have "natStr n = [digitChar n]" by (subst natStr.simps) simp
    then show ?thesis using True 1(2)
      by (simp add: isDigit_digitChar digitVal_digitChar)
  next
    case False
    have s: "natStr n = natStr (n div 10) @ [digitChar (n mod 10)]"
      using False by (subst natStr.simps) simp
    have "int (n div 10) \<le> M" using 1(2) by linarith
    then have ih: "parseUintLoop M (natStr (n div 10)) 0 = Inr (int (n div 10))"
      using 1(1) False by simp
    have d: "n mod 10 < 10" by simp
    have v: "int (n div 10) * 10 + int (n mod 10) = int n"
      by (metis add.commute mult.commute mod_mult_div_eq of_nat_add of_nat_mult of_nat_numeral)
    show ?thesis
      unfolding s parseUintLoop_snoc ih
      using 1(2) by (simp add: isDigit_digitChar [OF d] digitVal_digitChar [OF d] v)
  qed
qed

lemma parseIntBits_Itoa:
  assumes "0 < bitSize" and "- (2 ^ (bitSize - 1)) \<le> v" and "v < 2 ^ (bitSize - 1)"
  shows "parseIntBits (Itoa v) bitSize = Inr v"
proof -
  have pw: "(2::int) ^ bitSize = 2 * 2 ^ (bitSize - 1)"
    using assms(1) by (cases bitSize) simp_all
  have pos: "(0::int) < 2 ^ (bitSize - 1)" by simp
  show ?thesis
  proof (cases "v < 0")
    case True
    let ?n = "nat (- v)"
    have it: "Itoa v = CHR ''-'' # natStr ?n" using True by (simp add: Itoa_def)
    have n: "int ?n = - v" using True by simp
    have "int ?n \<le> 2 ^ bitSize - 1" using assms(2) pw pos n by linarith
    then have p: "parseUintLoop (2 ^ bitSize - 1) (natStr ?n) 0 = Inr (int ?n)"
      by (rule parseUintLoop_natStr)
    have le: "\<not> int ?n > 2 ^ (bitSize - 1)" using assms(2) n by linarith
    show ?thesis
      unfolding it parseIntBits_def
      using le True by (simp add: natStr_not_Nil p Let_def)
  next
    case False
    let ?n = "nat v"
    have it: "Itoa v = natStr ?n" using False by (simp add: Itoa_def)
    have n: "int ?n = v" using False by simp
    obtain d where d: "d < 10" "hd (natStr ?n) = digitChar d" using hd_natStr by blast
    have sign: "hd (natStr ?n) \<noteq> CHR ''+''" "hd (natStr ?n) \<noteq> CHR ''-''"
      using digitChar_not_sign [OF d(1)] d(2) by simp_all
    have "int ?n \<le> 2 ^ bitSize - 1" using assms(3) pw pos n by linarith
    then have p: "parseUintLoop (2 ^ bitSize - 1) (natStr ?n) 0 = Inr (int ?n)"
      by (rule parseUintLoop_natStr)
    have lt: "\<not> int ?n \<ge> 2 ^ (bitSize - 1)" using assms(3) n by linarith
    show ?thesis
      unfolding it parseIntBits_def
      using lt False by (simp add: natStr_not_Nil p Let_def sign)
  qed
qed

lemma parseValue_string_roundtrip: "parseValue env v TString = Inr (VString v)"
  by simp

lemma parseValue_int_roundtrip:
  assumes "0 < intSize env" and "- (2 ^ (intSize env - 1)) \<le> v" and "v < 2 ^ (intSize env - 1)"
  shows "parseValue env (Itoa v) TInt = Inr (VInt v)"
  using parseIntBits_Itoa [OF assms] by (simp add: Atoi_def)

lemma parseValue_int64_roundtrip:
  assumes "- (2 ^ 63) \<le> v" and "v < 2 ^ 63"
  shows "parseValue env (Itoa v) TInt64 = Inr (VInt64 v)"
  using parseIntBits_Itoa [of 64 v] assms by (simp add: ParseInt_def)

lemma parseValue_bool_roundtrip: "parseValue env (FormatBool b) TBool = Inr (VBool b)"
  by (simp add: FormatBool_def ParseBool_def)

lemma parseValue_unsupported:
  assumes "t \<notin> {TString, TInt, TInt64, TFloat64, TBool}"
  shows "parseValue env s t = Inl (UnsupportedType (tyString t))"
  using assms by (cases t) simp_all

lemma parseValue_float64_delegates:
  "parseValue env s TFloat64 =
     (case ParseFloat env s of
        Inl e \<Rightarrow> Inl (NumError ''ParseFloat'' s e)
      | Inr v \<Rightarrow> Inr (VFloat64 v))"
  by simp

end
